theory Spec2Isabelle
  imports Main "HOL-Library.AList"
begin

section \<open>The event model of \<open>brainbrowser/lib/events.js\<close>\<close>

text \<open>
  \<open>BrainBrowser.events.addEventModel(object)\<close> gives \<open>object\<close> two private registries
  (\<open>event_listeners\<close>, \<open>propagated_events\<close>) and seven methods closing over them. The
  embedding keeps one registry pair per object in a heap and passes the heap through every
  method explicitly; each method takes the object it belongs to (the \<open>object\<close> of the
  closure) as an argument.

  Modelling decisions, each taken from the source:
  \<^item> An \<open>obj\<close> is the identity of an object to which \<open>addEventModel\<close> has been applied;
    \<open>BrainBrowser.events\<close> itself is one of them (last line of the file). Objects are compared
    by identity (\<open>===\<close>, \<open>indexOf\<close>), that is by equality of \<open>obj\<close>. The argument
    \<open>other\<close> of \<open>propagateEventTo\<close> may be any value: it is either such an object or a
    \<open>PlainObject\<close>, one without the method \<open>allPropagationTargets\<close>.
  \<^item> \<open>event_listeners\<close> is an \<open>Array\<close> used as a dictionary (line 44) and
    \<open>propagated_events\<close> a plain object (line 45). A read \<open>registry[event_name]\<close> of a name
    that the registry does not hold falls through to \<open>Array.prototype\<close> and
    \<open>Object.prototype\<close>: it yields a built-in function, or the array's \<open>length\<close>, and
    the method that goes on to use the value as an array throws a \<open>TypeError\<close>. Every read
    is modelled with this lookup, and every method that can throw returns an \<open>error\<close> or
    its result.
  \<^item> \<open>event_listeners\<close> is only ever read and written at one key, so it is a map from
    event names to callback arrays, together with the \<open>length\<close> of the array.
    \<open>propagated_events\<close> is enumerated with \<open>Object.keys\<close>, so it is an association
    list in insertion order.
  \<^item> A callback is either a handler supplied by user code or the closure that
    \<open>propagateEventTo\<close> registers under \<open>eventmodelcleanup\<close>. A user handler is opaque:
    its invocation is recorded in a log with its \<open>this\<close> and its arguments, and it is taken
    not to call back into the event model. The log also records every entry into
    \<open>triggerEvent\<close> (\<open>Fired\<close>: the object, \<open>this\<close>, the full argument list), so that "the
    event is triggered on \<open>x\<close>" is a statement about the log.
  \<^item> \<open>triggerEvent\<close> is called with an explicit \<open>this\<close> (the source passes it on with
    \<open>apply\<close>); \<open>x.triggerEvent(E, ...)\<close> is the call with \<open>this = x\<close>.
  \<^item> \<open>allPropagationTargets\<close> and \<open>triggerEvent\<close> recurse along propagation edges and do
    not return on a cyclic graph. Both take fuel, one unit for each nested call; \<open>None\<close>
    means that the call did not return within the fuel given. \<open>triggerEvent\<close> returns its
    log in every case: without a result, the log holds what was done until the fuel ran
    out, and with an error, what was done until the error was thrown.
\<close>

subsection \<open>Data\<close>

text \<open>
  \<open>Cleanup object other\<close> is the closure of lines 154-158,
  \<^verbatim>\<open>function() { if (this === other) object.stopPropagatingTo(other); }\<close>,
  with the two variables it captures. \<open>empty_model\<close> holds the registries as
  \<open>addEventModel\<close> creates them (lines 44-45): an empty array, of length 0, and an empty
  object. Applied to an object that has the event model already, \<open>addEventModel\<close>
  replaces its seven methods by closures over two new registries, and the old registries
  are no longer used by anything. \<open>Error msg\<close> is an \<open>Error\<close> object as lines 144 and
  148 throw it, with its message; \<open>TypeError\<close> is the error that the engine throws
  when a value that is not an array is used as one.
\<close>

type_synonym obj = nat

definition BrainBrowser_events :: obj where
  "BrainBrowser_events = 0"

datatype val = VString string | VNumber int | VObject obj

datatype callback =
    Handler nat
  | Cleanup obj obj

record event_model =
  event_listeners :: "string \<rightharpoonup> callback list"
  event_listeners_length :: nat
  propagated_events :: "(string \<times> obj list) list"

type_synonym heap = "obj \<Rightarrow> event_model"

definition empty_model :: event_model where
  "empty_model =
     \<lparr>event_listeners = Map.empty, event_listeners_length = 0, propagated_events = []\<rparr>"

definition addEventModel :: "heap \<Rightarrow> obj \<Rightarrow> heap" where
  "addEventModel h object = h(object := empty_model)"

definition initial_heap :: heap where
  "initial_heap = (\<lambda>object. empty_model)"

datatype other = EventObject obj | PlainObject

datatype error = Error string | TypeError

definition no_event_model_error :: error where
  "no_event_model_error =
     Error (''Propagation target doesn'' @ [CHR 0x27] @ ''t seem to have an event model.'')"

definition cycle_error :: "string \<Rightarrow> error" where
  "cycle_error event_name =
     Error (''Propagating event '' @ [CHR 0x27] @ event_name @ [CHR 0x27] @ '' would cause a cycle.'')"

datatype entry =
    Fired obj obj "val list"
  | Called callback obj "val list"

subsection \<open>Reading a registry\<close>

text \<open>
  \<open>Object_prototype\<close> lists the property names of \<open>Object.prototype\<close>, and
  \<open>Array_prototype\<close> those of \<open>Array.prototype\<close>, as ECMAScript 2023 defines them
  (an older engine lacks some of the array methods; \<open>constructor\<close>, \<open>toString\<close>,
  \<open>push\<close>, \<open>forEach\<close> and the like are in every edition). An array inherits from both.
  \<open>array_index\<close> recognises the names that are array indices: the decimal numerals
  without leading zero below \<open>2^32 - 1\<close>.

  A \<open>property\<close> is the value of a read \<open>registry[name]\<close>: \<open>Undefined\<close>, a value
  \<open>Inherited\<close> from a prototype (a function, or \<open>Object.prototype\<close> itself for
  \<open>__proto__\<close>: truthy, and not an array), the \<open>Number\<close> that is the length of the array,
  or the array that the registry holds under the name (\<open>Own\<close>).

  A name that a prototype defines is never a key of the registry itself. In
  \<open>event_listeners\<close>, line 71 assigns only when the read is falsy, and line 74 throws
  for such a name. In \<open>propagated_events\<close>, line 151 is the only assignment, and line
  147 has by then either thrown for \<open>BrainBrowser.events\<close> or read the same name in the
  registry of \<open>other\<close>, where lines 234-235 throw. So the read of such a name is decided
  by the name. \<open>length\<close> is the array's own property; it grows when an array index is
  assigned (\<open>set_listeners\<close>).
\<close>

definition Object_prototype :: "string list" where
  "Object_prototype =
     [''constructor'', ''hasOwnProperty'', ''isPrototypeOf'', ''propertyIsEnumerable'',
      ''toLocaleString'', ''toString'', ''valueOf'', ''__proto__'',
      ''__defineGetter__'', ''__defineSetter__'', ''__lookupGetter__'', ''__lookupSetter__'']"

definition Array_prototype :: "string list" where
  "Array_prototype =
     [''constructor'', ''at'', ''concat'', ''copyWithin'', ''entries'', ''every'', ''fill'',
      ''filter'', ''find'', ''findIndex'', ''findLast'', ''findLastIndex'', ''flat'',
      ''flatMap'', ''forEach'', ''includes'', ''indexOf'', ''join'', ''keys'',
      ''lastIndexOf'', ''map'', ''pop'', ''push'', ''reduce'', ''reduceRight'', ''reverse'',
      ''shift'', ''slice'', ''some'', ''sort'', ''splice'', ''toLocaleString'',
      ''toReversed'', ''toSorted'', ''toSpliced'', ''toString'', ''unshift'', ''values'',
      ''with'']"

definition decimal :: "string \<Rightarrow> nat" where
  "decimal name = foldl (\<lambda>n c. 10 * n + (of_char c - 48)) 0 name"

definition array_index :: "string \<Rightarrow> nat option" where
  "array_index name =
     (if name \<noteq> [] \<and> list_all (\<lambda>c. c \<in> set ''0123456789'') name \<and>
         (hd name \<noteq> CHR ''0'' \<or> name = ''0'') \<and> decimal name < 4294967295
      then Some (decimal name) else None)"

datatype 'a property = Undefined | Inherited | Number nat | Own 'a

definition get_listeners :: "heap \<Rightarrow> obj \<Rightarrow> string \<Rightarrow> callback list property" where
  "get_listeners h object name =
     (if name = ''length'' then Number (event_listeners_length (h object))
      else if name \<in> set Array_prototype \<or> name \<in> set Object_prototype then Inherited
      else (case event_listeners (h object) name of
              None \<Rightarrow> Undefined
            | Some callbacks \<Rightarrow> Own callbacks))"

definition get_targets :: "heap \<Rightarrow> obj \<Rightarrow> string \<Rightarrow> obj list property" where
  "get_targets h object name =
     (if name \<in> set Object_prototype then Inherited
      else (case map_of (propagated_events (h object)) name of
              None \<Rightarrow> Undefined
            | Some ts \<Rightarrow> Own ts))"

text \<open>
  \<open>array_or_empty\<close> is \<open>value || []\<close> followed by a call of an array method on the
  result (\<open>forEach\<close>, \<open>indexOf\<close>): a truthy value that is not an array has no such
  method, and the call throws.
  \<open>set_listeners\<close> is an assignment to \<open>event_listeners[event_name]\<close>, and
  \<open>set_targets\<close> one to \<open>propagated_events[event_name]\<close>: an existing key
  keeps its place among the keys, a new one comes last. \<open>push_unique\<close> is
  \<^verbatim>\<open>if (propagation_targets.indexOf(x) === -1) propagation_targets.push(x)\<close>.
\<close>

definition array_or_empty :: "'a list property \<Rightarrow> error + 'a list" where
  "array_or_empty value =
     (case value of
        Undefined \<Rightarrow> Inr []
      | Inherited \<Rightarrow> Inl TypeError
      | Number n \<Rightarrow> if n = 0 then Inr [] else Inl TypeError
      | Own xs \<Rightarrow> Inr xs)"

definition set_listeners :: "heap \<Rightarrow> obj \<Rightarrow> string \<Rightarrow> callback list \<Rightarrow> heap" where
  "set_listeners h object event_name callbacks =
     h(object := (h object)\<lparr>
         event_listeners := (event_listeners (h object))(event_name \<mapsto> callbacks),
         event_listeners_length :=
           (case array_index event_name of
              None \<Rightarrow> event_listeners_length (h object)
            | Some i \<Rightarrow> max (event_listeners_length (h object)) (Suc i))\<rparr>)"

definition set_targets :: "heap \<Rightarrow> obj \<Rightarrow> string \<Rightarrow> obj list \<Rightarrow> heap" where
  "set_targets h object event_name ts =
     h(object := (h object)\<lparr>propagated_events :=
         AList.update event_name ts (propagated_events (h object))\<rparr>)"

definition push_unique :: "obj list \<Rightarrow> obj \<Rightarrow> obj list" where
  "push_unique propagation_targets x =
     (if x \<in> set propagation_targets then propagation_targets else propagation_targets @ [x])"

subsection \<open>addEventListener, stopPropagatingTo, directPropagationTargets\<close>

text \<open>
  Lines 69-75, 208-212 and 229-243. In \<open>addEventListener\<close>, a name that reads as
  \<open>Undefined\<close> is first assigned an empty array, to which the callback is pushed; an
  array that is there is pushed to in place. For \<open>length\<close> the read is a number: when
  it is \<open>0\<close>, line 71 assigns \<open>[]\<close> to the length, which leaves it \<open>0\<close>; in either case
  line 74 calls \<open>push\<close> on a number and throws, as it does on an inherited function.
  \<open>stopPropagatingTo\<close> replaces the array of every key
  by its filtered copy; the keys of an object are distinct, so this is a map over the
  entries. \<open>directPropagationTargets\<close> takes \<open>None\<close> for a call without argument
  (\<open>event_name === undefined\<close>) and \<open>Some e\<close> for the names \<open>e\<close> and \<open>*\<close>. Without
  argument the names are those of \<open>Object.keys\<close>, and each is read as the array the
  registry holds under it. \<open>forEach_name\<close> is the loop of lines 233-240, which stops at
  a throw.
\<close>

definition addEventListener :: "heap \<Rightarrow> obj \<Rightarrow> string \<Rightarrow> callback \<Rightarrow> error + heap" where
  "addEventListener h object event_name callback =
     (case get_listeners h object event_name of
        Undefined \<Rightarrow> Inr (set_listeners h object event_name [callback])
      | Inherited \<Rightarrow> Inl TypeError
      | Number n \<Rightarrow> Inl TypeError
      | Own callbacks \<Rightarrow>
          Inr (h(object := (h object)\<lparr>event_listeners :=
                 (event_listeners (h object))(event_name \<mapsto> callbacks @ [callback])\<rparr>)))"

definition stopPropagatingTo :: "heap \<Rightarrow> obj \<Rightarrow> obj \<Rightarrow> heap" where
  "stopPropagatingTo h object other =
     h(object := (h object)\<lparr>propagated_events :=
         map (\<lambda>(event_name, ts). (event_name, filter (\<lambda>target. target \<noteq> other) ts))
           (propagated_events (h object))\<rparr>)"

fun forEach_name ::
  "string list \<Rightarrow> (string \<Rightarrow> obj list \<Rightarrow> error + obj list) \<Rightarrow> obj list \<Rightarrow> error + obj list"
where
  "forEach_name [] f propagation_targets = Inr propagation_targets"
| "forEach_name (name # names) f propagation_targets =
     (case f name propagation_targets of
        Inl err \<Rightarrow> Inl err
      | Inr propagation_targets' \<Rightarrow> forEach_name names f propagation_targets')"

definition directPropagationTargets :: "heap \<Rightarrow> obj \<Rightarrow> string option \<Rightarrow> error + obj list" where
  "directPropagationTargets h object event_name =
     (case event_name of
        None \<Rightarrow>
          forEach_name (map fst (propagated_events (h object)))
            (\<lambda>name propagation_targets.
               case map_of (propagated_events (h object)) name of
                 None \<Rightarrow> Inr propagation_targets
               | Some ts \<Rightarrow> Inr (foldl push_unique propagation_targets ts))
            []
      | Some e \<Rightarrow>
          forEach_name [e, ''*'']
            (\<lambda>name propagation_targets.
               case array_or_empty (get_targets h object name) of
                 Inl err \<Rightarrow> Inl err
               | Inr ts \<Rightarrow> Inr (foldl push_unique propagation_targets ts))
            [])"

subsection \<open>allPropagationTargets\<close>

text \<open>
  Lines 261-274. \<open>forEach_recursive\<close> is \<open>Array.prototype.forEach\<close> for a callback that
  may throw or fail to return. \<open>propagation_targets\<close> starts as a copy of
  \<open>direct_targets\<close>, and the loop runs over \<open>direct_targets\<close>.
\<close>

fun forEach_recursive ::
  "'a list \<Rightarrow> ('a \<Rightarrow> 's \<Rightarrow> (error + 's) option) \<Rightarrow> 's \<Rightarrow> (error + 's) option" where
  "forEach_recursive [] f s = Some (Inr s)"
| "forEach_recursive (x # xs) f s =
     (case f x s of
        None \<Rightarrow> None
      | Some (Inl err) \<Rightarrow> Some (Inl err)
      | Some (Inr s') \<Rightarrow> forEach_recursive xs f s')"

fun allPropagationTargets ::
  "nat \<Rightarrow> heap \<Rightarrow> obj \<Rightarrow> string option \<Rightarrow> (error + obj list) option" where
  "allPropagationTargets 0 h object event_name = None"
| "allPropagationTargets (Suc fuel) h object event_name =
     (case directPropagationTargets h object event_name of
        Inl err \<Rightarrow> Some (Inl err)
      | Inr direct_targets \<Rightarrow>
          forEach_recursive direct_targets
            (\<lambda>target propagation_targets.
               case allPropagationTargets fuel h target event_name of
                 None \<Rightarrow> None
               | Some (Inl err) \<Rightarrow> Some (Inl err)
               | Some (Inr recursive_targets) \<Rightarrow>
                   Some (Inr (foldl push_unique propagation_targets recursive_targets)))
            direct_targets)"

subsection \<open>propagateEventTo, propagateEventFrom\<close>

text \<open>
  Lines 142-165 and 192-194. The test of line 143 comes first; in line 147 the test
  \<open>object === BrainBrowser.events\<close> comes before the transitive query, which \<open>||\<close> then
  skips. The three steps after the checks are lines 151, 153-159 and 161-163. Line 151
  stores what it reads, or an empty array. Line 147 has by then read the same name on
  \<open>other\<close> and thrown if a prototype defines it, so an inherited value cannot come up
  in line 151; the model gives the \<open>TypeError\<close> there that the source, having stored
  the inherited value, would throw at the next use of it as an array.
\<close>

definition propagateEventTo ::
  "nat \<Rightarrow> heap \<Rightarrow> obj \<Rightarrow> string \<Rightarrow> other \<Rightarrow> (error + heap) option" where
  "propagateEventTo fuel h object event_name other_arg =
     (case other_arg of
        PlainObject \<Rightarrow> Some (Inl no_event_model_error)
      | EventObject other \<Rightarrow>
          if object = BrainBrowser_events then Some (Inl (cycle_error event_name))
          else
            (case allPropagationTargets fuel h other (Some event_name) of
               None \<Rightarrow> None
             | Some (Inl err) \<Rightarrow> Some (Inl err)
             | Some (Inr all_targets) \<Rightarrow>
                 if object \<in> set all_targets then Some (Inl (cycle_error event_name))
                 else
                   (case array_or_empty (get_targets h object event_name) of
                      Inl err \<Rightarrow> Some (Inl err)
                    | Inr ts \<Rightarrow>
                   (let h1 = set_targets h object event_name ts
                    in case directPropagationTargets h1 object None of
                      Inl err \<Rightarrow> Some (Inl err)
                    | Inr direct_targets \<Rightarrow>
                   (case (if other \<notin> set direct_targets
                          then addEventListener h1 other ''eventmodelcleanup''
                                 (Cleanup object other)
                          else Inr h1) of
                      Inl err \<Rightarrow> Some (Inl err)
                    | Inr h2 \<Rightarrow>
                   (case array_or_empty (get_targets h2 object event_name) of
                      Inl err \<Rightarrow> Some (Inl err)
                    | Inr ts2 \<Rightarrow>
                        Some (Inr (if other \<notin> set ts2
                                   then set_targets h2 object event_name (ts2 @ [other])
                                   else h2))))))))"

definition propagateEventFrom ::
  "nat \<Rightarrow> heap \<Rightarrow> obj \<Rightarrow> string \<Rightarrow> obj \<Rightarrow> (error + heap) option" where
  "propagateEventFrom fuel h object event_name other =
     propagateEventTo fuel h other event_name (EventObject object)"

subsection \<open>triggerEvent\<close>

text \<open>
  Lines 90-115. \<open>apply_callback\<close> is \<open>callback.apply(trigger, args)\<close>. \<open>run_listeners\<close>
  is one of the two blocks of lines 96-106: the test \<open>if (event_listeners[name])\<close> and
  the loop over the value, which throws when the value is truthy and not an array.
  \<open>propagate_to\<close> is computed before any listener runs (line 94). \<open>forEach_target\<close> is
  the loop of lines 108-110; it stops at a call that throws or does not return.
\<close>

fun apply_callback :: "callback \<Rightarrow> obj \<Rightarrow> val list \<Rightarrow> heap \<Rightarrow> heap" where
  "apply_callback (Handler k) this args h = h"
| "apply_callback (Cleanup object other) this args h =
     (if this = other then stopPropagatingTo h object other else h)"

fun run_callbacks :: "callback list \<Rightarrow> obj \<Rightarrow> val list \<Rightarrow> heap \<Rightarrow> entry list \<times> heap" where
  "run_callbacks [] trigger args h = ([], h)"
| "run_callbacks (callback # rest) trigger args h =
     (case run_callbacks rest trigger args (apply_callback callback trigger args h) of
        (log, h') \<Rightarrow> (Called callback trigger args # log, h'))"

definition run_listeners ::
  "heap \<Rightarrow> obj \<Rightarrow> string \<Rightarrow> obj \<Rightarrow> val list \<Rightarrow> error + entry list \<times> heap" where
  "run_listeners h object name trigger args =
     (case get_listeners h object name of
        Undefined \<Rightarrow> Inr ([], h)
      | Inherited \<Rightarrow> Inl TypeError
      | Number n \<Rightarrow> if n = 0 then Inr ([], h) else Inl TypeError
      | Own callbacks \<Rightarrow> Inr (run_callbacks callbacks trigger args h))"

fun forEach_target ::
  "obj list \<Rightarrow> (obj \<Rightarrow> heap \<Rightarrow> entry list \<times> (error + heap) option) \<Rightarrow> heap \<Rightarrow>
   entry list \<times> (error + heap) option"
where
  "forEach_target [] f h = ([], Some (Inr h))"
| "forEach_target (other # rest) f h =
     (case f other h of
        (log, None) \<Rightarrow> (log, None)
      | (log, Some (Inl err)) \<Rightarrow> (log, Some (Inl err))
      | (log, Some (Inr h')) \<Rightarrow>
          (case forEach_target rest f h' of (log', r) \<Rightarrow> (log @ log', r)))"

fun triggerEvent ::
  "nat \<Rightarrow> heap \<Rightarrow> obj \<Rightarrow> obj \<Rightarrow> string \<Rightarrow> val list \<Rightarrow> entry list \<times> (error + heap) option"
where
  "triggerEvent 0 h object trigger event_name args = ([], None)"
| "triggerEvent (Suc fuel) h object trigger event_name args =
     (let full_args = VString event_name # args;
          fired = Fired object trigger full_args
      in case directPropagationTargets h object (Some event_name) of
           Inl err \<Rightarrow> ([fired], Some (Inl err))
         | Inr propagate_to \<Rightarrow>
        (case run_listeners h object event_name trigger args of
           Inl err \<Rightarrow> ([fired], Some (Inl err))
         | Inr (log1, h1) \<Rightarrow>
        (case run_listeners h1 object ''*'' trigger full_args of
           Inl err \<Rightarrow> (fired # log1, Some (Inl err))
         | Inr (log2, h2) \<Rightarrow>
        (case forEach_target propagate_to
                (\<lambda>other h'. triggerEvent fuel h' other trigger event_name args) h2 of
           (log3, None) \<Rightarrow> (fired # log1 @ log2 @ log3, None)
         | (log3, Some (Inl err)) \<Rightarrow> (fired # log1 @ log2 @ log3, Some (Inl err))
         | (log3, Some (Inr h3)) \<Rightarrow>
             if propagate_to = [] \<and> object \<noteq> BrainBrowser_events
             then (case triggerEvent fuel h3 BrainBrowser_events trigger event_name args of
                     (log4, r4) \<Rightarrow> (fired # log1 @ log2 @ log3 @ log4, r4))
             else (fired # log1 @ log2 @ log3, Some (Inr h3))))))"

section \<open>Auxiliary notions for the statements\<close>

subsection \<open>The methods on names that no prototype defines\<close>

text \<open>
  A name is \<open>ordinary\<close> when neither prototype defines it and it is not \<open>length\<close>: then
  every read of it yields what the registry holds, and no method throws a \<open>TypeError\<close>.
  \<open>own_listeners\<close> and \<open>own_targets\<close> read the registry itself, with the empty array
  for a name it does not hold. \<open>push_listener\<close>, \<open>direct_targets\<close>, \<open>all_targets\<close> and
  \<open>dispatch\<close> are \<open>addEventListener\<close>, \<open>directPropagationTargets\<close>,
  \<open>allPropagationTargets\<close> and \<open>triggerEvent\<close> with these reads; the section on the
  properties of the model proves that the methods return just these values on the names
  that no prototype defines. \<open>record_edge\<close> is in the same way the part of
  \<open>propagateEventTo\<close> after its two checks.
\<close>

definition ordinary :: "string \<Rightarrow> bool" where
  "ordinary name \<longleftrightarrow>
     name \<noteq> ''length'' \<and> name \<notin> set Array_prototype \<and> name \<notin> set Object_prototype"

definition own_listeners :: "heap \<Rightarrow> obj \<Rightarrow> string \<Rightarrow> callback list" where
  "own_listeners h object event_name =
     (case event_listeners (h object) event_name of None \<Rightarrow> [] | Some cbs \<Rightarrow> cbs)"

definition own_targets :: "heap \<Rightarrow> obj \<Rightarrow> string \<Rightarrow> obj list" where
  "own_targets h object event_name =
     (case map_of (propagated_events (h object)) event_name of None \<Rightarrow> [] | Some ts \<Rightarrow> ts)"

definition push_listener :: "heap \<Rightarrow> obj \<Rightarrow> string \<Rightarrow> callback \<Rightarrow> heap" where
  "push_listener h object event_name callback =
     (case event_listeners (h object) event_name of
        None \<Rightarrow> set_listeners h object event_name [callback]
      | Some callbacks \<Rightarrow>
          h(object := (h object)\<lparr>event_listeners :=
              (event_listeners (h object))(event_name \<mapsto> callbacks @ [callback])\<rparr>))"

definition direct_targets :: "heap \<Rightarrow> obj \<Rightarrow> string option \<Rightarrow> obj list" where
  "direct_targets h object event_name =
     (let event_names =
        (case event_name of
           None \<Rightarrow> map fst (propagated_events (h object))
         | Some e \<Rightarrow> [e, ''*''])
      in foldl (\<lambda>propagation_targets name.
                  foldl push_unique propagation_targets (own_targets h object name))
           [] event_names)"

fun forEach :: "'a list \<Rightarrow> ('a \<Rightarrow> 's \<Rightarrow> 's option) \<Rightarrow> 's \<Rightarrow> 's option" where
  "forEach [] f s = Some s"
| "forEach (x # xs) f s = (case f x s of None \<Rightarrow> None | Some s' \<Rightarrow> forEach xs f s')"

fun all_targets :: "nat \<Rightarrow> heap \<Rightarrow> obj \<Rightarrow> string option \<Rightarrow> obj list option" where
  "all_targets 0 h object event_name = None"
| "all_targets (Suc fuel) h object event_name =
     (let direct = direct_targets h object event_name
      in forEach direct
           (\<lambda>target propagation_targets.
              case all_targets fuel h target event_name of
                None \<Rightarrow> None
              | Some recursive_targets \<Rightarrow>
                  Some (foldl push_unique propagation_targets recursive_targets))
           direct)"

definition record_edge :: "heap \<Rightarrow> obj \<Rightarrow> string \<Rightarrow> obj \<Rightarrow> heap" where
  "record_edge h object event_name other =
     (let h1 = set_targets h object event_name (own_targets h object event_name);
          h2 = (if other \<notin> set (direct_targets h1 object None)
                then push_listener h1 other ''eventmodelcleanup'' (Cleanup object other)
                else h1);
          h3 = (if other \<notin> set (own_targets h2 object event_name)
                then set_targets h2 object event_name (own_targets h2 object event_name @ [other])
                else h2)
      in h3)"

fun forEach_dispatch ::
  "obj list \<Rightarrow> (obj \<Rightarrow> heap \<Rightarrow> entry list \<times> heap option) \<Rightarrow> heap \<Rightarrow> entry list \<times> heap option"
where
  "forEach_dispatch [] f h = ([], Some h)"
| "forEach_dispatch (other # rest) f h =
     (case f other h of
        (log, None) \<Rightarrow> (log, None)
      | (log, Some h') \<Rightarrow>
          (case forEach_dispatch rest f h' of (log', r) \<Rightarrow> (log @ log', r)))"

fun dispatch ::
  "nat \<Rightarrow> heap \<Rightarrow> obj \<Rightarrow> obj \<Rightarrow> string \<Rightarrow> val list \<Rightarrow> entry list \<times> heap option" where
  "dispatch 0 h object trigger event_name args = ([], None)"
| "dispatch (Suc fuel) h object trigger event_name args =
     (let full_args = VString event_name # args;
          propagate_to = direct_targets h object (Some event_name);
          (log1, h1) = run_callbacks (own_listeners h object event_name) trigger args h;
          (log2, h2) = run_callbacks (own_listeners h1 object ''*'') trigger full_args h1;
          (log3, r3) = forEach_dispatch propagate_to
                         (\<lambda>other h'. dispatch fuel h' other trigger event_name args) h2;
          fired = Fired object trigger full_args # log1 @ log2 @ log3
      in (case r3 of
            None \<Rightarrow> (fired, None)
          | Some h3 \<Rightarrow>
              if propagate_to = [] \<and> object \<noteq> BrainBrowser_events
              then (let (log4, r4) =
                          dispatch fuel h3 BrainBrowser_events trigger event_name args
                    in (fired @ log4, r4))
              else (fired, Some h3)))"

subsection \<open>Logs, heaps and invariants\<close>

text \<open>
  \<open>listener_log\<close> is the part of the log that the two listener loops of \<open>triggerEvent\<close>
  write for one object, and \<open>after_listeners\<close> is the heap they leave.
  \<open>drop_target t\<close> is what \<open>stopPropagatingTo(t)\<close> does to one registry, and
  \<open>unlinked t h h'\<close> says that \<open>h'\<close> differs from \<open>h\<close> at most in that some objects have
  run \<open>stopPropagatingTo(t)\<close>: this is all that a dispatch whose \<open>this\<close> is \<open>t\<close> can do
  to the registries.
\<close>

definition listener_log :: "heap \<Rightarrow> obj \<Rightarrow> obj \<Rightarrow> string \<Rightarrow> val list \<Rightarrow> entry list" where
  "listener_log h object this event_name args =
     map (\<lambda>callback. Called callback this args) (own_listeners h object event_name) @
     map (\<lambda>callback. Called callback this (VString event_name # args)) (own_listeners h object ''*'')"

definition drop_target :: "obj \<Rightarrow> (string \<times> obj list) list \<Rightarrow> (string \<times> obj list) list" where
  "drop_target t pe = map (\<lambda>(event_name, ts). (event_name, filter (\<lambda>target. target \<noteq> t) ts)) pe"

definition unlinked :: "obj \<Rightarrow> heap \<Rightarrow> heap \<Rightarrow> bool" where
  "unlinked t h h' \<longleftrightarrow>
     (\<forall>x. event_listeners (h' x) = event_listeners (h x) \<and>
          event_listeners_length (h' x) = event_listeners_length (h x) \<and>
          (propagated_events (h' x) = propagated_events (h x) \<or>
           propagated_events (h' x) = drop_target t (propagated_events (h x))))"

definition after_listeners :: "heap \<Rightarrow> obj \<Rightarrow> obj \<Rightarrow> string \<Rightarrow> val list \<Rightarrow> heap" where
  "after_listeners h object this event_name args =
     snd (run_callbacks (own_listeners (snd (run_callbacks (own_listeners h object event_name) this args h))
                           object ''*'')
            this (VString event_name # args)
            (snd (run_callbacks (own_listeners h object event_name) this args h)))"

text \<open>
  \<open>fired_on x\<close> recognises the log entries of a dispatch on \<open>x\<close>.
  A heap is \<open>reachable\<close> when calls of \<open>addEventModel\<close> and of the public methods
  produce it from the heap in which every object has empty registries; user code
  registers its own handlers only, the cleanup closures come from \<open>propagateEventTo\<close>.
  A call that throws or does not return adds no heap to them: \<open>addEventListener\<close> and
  \<open>propagateEventTo\<close> throw before they change a registry, and what a dispatch has
  changed when it is cut short is the work of calls of \<open>stopPropagatingTo\<close>, which
  rule \<open>stop\<close> covers.
\<close>

fun fired_on :: "obj \<Rightarrow> entry \<Rightarrow> bool" where
  "fired_on x (Fired object this full_args) = (object = x)"
| "fired_on x (Called callback this args) = False"

inductive reachable :: "heap \<Rightarrow> bool" where
  initial: "reachable initial_heap"
| model: "reachable h \<Longrightarrow> reachable (addEventModel h object)"
| listen: "reachable h \<Longrightarrow> addEventListener h object event_name (Handler k) = Inr h' \<Longrightarrow>
           reachable h'"
| propagate: "reachable h \<Longrightarrow> propagateEventTo fuel h object event_name other = Some (Inr h') \<Longrightarrow>
              reachable h'"
| stop: "reachable h \<Longrightarrow> reachable (stopPropagatingTo h object other)"
| trigger: "reachable h \<Longrightarrow>
            triggerEvent fuel h object this event_name args = (log, Some (Inr h')) \<Longrightarrow>
            reachable h'"


text \<open>
  \<open>cleanup_registered h t\<close> says that every propagation edge to \<open>t\<close> has its cleanup
  closure among the listeners of \<open>t\<close>, and \<open>no_edge_to h t\<close> that no object propagates
  anything to \<open>t\<close>.
\<close>

definition cleanup_registered :: "heap \<Rightarrow> obj \<Rightarrow> bool" where
  "cleanup_registered h t \<longleftrightarrow>
     (\<forall>x e. t \<in> set (own_targets h x e) \<longrightarrow>
            Cleanup x t \<in> set (own_listeners h t ''eventmodelcleanup''))"

definition no_edge_to :: "heap \<Rightarrow> obj \<Rightarrow> bool" where
  "no_edge_to h t \<longleftrightarrow> (\<forall>x e. t \<notin> set (own_targets h x e))"

section \<open>Properties of the model\<close>

subsection \<open>What the callbacks of one dispatch log and change\<close>

lemma run_callbacks_log:
  "fst (run_callbacks cbs t args h) = map (\<lambda>callback. Called callback t args) cbs"
  by (induction cbs arbitrary: h) (simp_all add: split_beta)

lemma drop_target_idem: "drop_target t (drop_target t pe) = drop_target t pe"
  by (induction pe) (auto simp: drop_target_def)

lemma unlinked_refl: "unlinked t h h"
  by (simp add: unlinked_def)

lemma unlinked_trans: "unlinked t h h' \<Longrightarrow> unlinked t h' h'' \<Longrightarrow> unlinked t h h''"
  unfolding unlinked_def by (metis drop_target_idem)

lemma unlinked_apply_callback: "unlinked t h (apply_callback cb t args h)"
  by (cases cb) (auto simp: unlinked_def stopPropagatingTo_def drop_target_def)

lemma unlinked_run_callbacks: "unlinked t h (snd (run_callbacks cbs t args h))"
proof (induction cbs arbitrary: h)
  case Nil
  show ?case by (simp add: unlinked_refl)
next
  case (Cons cb cbs)
  have "unlinked t (apply_callback cb t args h)
          (snd (run_callbacks cbs t args (apply_callback cb t args h)))"
    by (rule Cons.IH)
  with unlinked_apply_callback [of t h cb args] show ?case
    by (auto split: prod.splits intro: unlinked_trans)
qed

lemma unlinked_listeners: "unlinked t h h' \<Longrightarrow> own_listeners h' x e = own_listeners h x e"
  by (simp add: unlinked_def own_listeners_def)

lemma map_of_drop_target:
  "map_of (drop_target t pe) e = map_option (filter (\<lambda>target. target \<noteq> t)) (map_of pe e)"
  by (induction pe) (auto simp: drop_target_def)

lemma unlinked_targets:
  "unlinked t h h' \<Longrightarrow>
     own_targets h' x e = own_targets h x e \<or> own_targets h' x e = filter (\<lambda>target. target \<noteq> t) (own_targets h x e)"
  unfolding unlinked_def own_targets_def
  by (metis (no_types, lifting) map_of_drop_target option.case_eq_if option.map_disc_iff
      option.map_sel filter.simps(1))

lemma filter_push_unique:
  "filter P (foldl push_unique acc xs) = foldl push_unique (filter P acc) (filter P xs)"
  by (induction xs arbitrary: acc) (auto simp: push_unique_def)

lemma foldl_push_unique_filter:
  "filter P (foldl (\<lambda>a name. foldl push_unique a (f name)) acc names) =
   foldl (\<lambda>a name. foldl push_unique a (filter P (f name))) (filter P acc) names"
proof (induction names arbitrary: acc)
  case Nil
  show ?case by simp
next
  case (Cons name names)
  show ?case by (simp add: Cons.IH filter_push_unique)
qed

lemma targets_drop_target:
  "propagated_events (h' x) = drop_target t (propagated_events (h x)) \<Longrightarrow>
   own_targets h' x e = filter (\<lambda>target. target \<noteq> t) (own_targets h x e)"
  by (cases "map_of (propagated_events (h x)) e") (simp_all add: own_targets_def map_of_drop_target)

lemma map_fst_drop_target: "map fst (drop_target t pe) = map fst pe"
  by (induction pe) (auto simp: drop_target_def)

lemma direct_same:
  "propagated_events (h' x) = propagated_events (h x) \<Longrightarrow>
   direct_targets h' x e = direct_targets h x e"
  by (cases e) (simp_all add: direct_targets_def own_targets_def)

lemma direct_drop_target:
  assumes "propagated_events (h' x) = drop_target t (propagated_events (h x))"
  shows "direct_targets h' x e =
         filter (\<lambda>target. target \<noteq> t) (direct_targets h x e)"
proof -
  have "\<And>name. own_targets h' x name = filter (\<lambda>target. target \<noteq> t) (own_targets h x name)"
    using assms by (rule targets_drop_target)
  then show ?thesis
    using assms
    by (simp add: direct_targets_def foldl_push_unique_filter map_fst_drop_target
        split: option.splits)
qed

lemma unlinked_direct:
  assumes "unlinked t h h'"
  shows "direct_targets h' x e = direct_targets h x e \<or>
         direct_targets h' x e =
           filter (\<lambda>target. target \<noteq> t) (direct_targets h x e)"
proof -
  from assms have "propagated_events (h' x) = propagated_events (h x) \<or>
      propagated_events (h' x) = drop_target t (propagated_events (h x))"
    by (simp add: unlinked_def)
  then show ?thesis
    using direct_same [of h' x h e] direct_drop_target [of h' x t h e] by blast
qed

lemma unlinked_direct_Nil:
  "unlinked t h h' \<Longrightarrow> direct_targets h x e = [] \<Longrightarrow>
   direct_targets h' x e = []"
  using unlinked_direct [of t h h' x e] by auto

lemma unlinked_direct_notin:
  "unlinked t h h' \<Longrightarrow> t \<notin> set (direct_targets h x e) \<Longrightarrow>
   direct_targets h' x e = direct_targets h x e"
  using unlinked_direct [of t h h' x e] by (auto simp: filter_id_conv)

lemma unlinked_after_listeners: "unlinked t h (after_listeners h object t e args)"
  unfolding after_listeners_def
  by (rule unlinked_trans [OF unlinked_run_callbacks unlinked_run_callbacks])

lemma dispatch_Suc:
  "dispatch (Suc n) h object t e args =
     (case forEach_dispatch (direct_targets h object (Some e))
             (\<lambda>other h'. dispatch n h' other t e args) (after_listeners h object t e args) of
        (log3, None) \<Rightarrow>
          (Fired object t (VString e # args) # listener_log h object t e args @ log3, None)
      | (log3, Some h3) \<Rightarrow>
          if direct_targets h object (Some e) = [] \<and> object \<noteq> BrainBrowser_events
          then (Fired object t (VString e # args) # listener_log h object t e args @ log3 @
                  fst (dispatch n h3 BrainBrowser_events t e args),
                snd (dispatch n h3 BrainBrowser_events t e args))
          else (Fired object t (VString e # args) # listener_log h object t e args @ log3, Some h3))"
proof -
  have l: "own_listeners (snd (run_callbacks (own_listeners h object e) t args h)) object ''*'' =
           own_listeners h object ''*''"
    by (rule unlinked_listeners [OF unlinked_run_callbacks])
  obtain log1 h1 where r1: "run_callbacks (own_listeners h object e) t args h = (log1, h1)"
    by (cases "run_callbacks (own_listeners h object e) t args h")
  obtain log2 h2 where r2: "run_callbacks (own_listeners h1 object ''*'') t (VString e # args) h1 = (log2, h2)"
    by (cases "run_callbacks (own_listeners h1 object ''*'') t (VString e # args) h1")
  have log1: "log1 = map (\<lambda>callback. Called callback t args) (own_listeners h object e)"
    using run_callbacks_log [of "own_listeners h object e" t args h] r1 by simp
  have log2: "log2 = map (\<lambda>callback. Called callback t (VString e # args)) (own_listeners h object ''*'')"
    using run_callbacks_log [of "own_listeners h1 object ''*''" t "VString e # args" h1] r2 l r1 by simp
  have h2: "after_listeners h object t e args = h2"
    using r1 r2 by (simp add: after_listeners_def)
  show ?thesis
    by (auto simp add: Let_def r1 r2 h2 log1 log2 listener_log_def split_beta
        split: option.splits prod.splits)
qed


declare dispatch.simps(2) [simp del]


lemma dispatch_log_prefix:
  "\<exists>rest. fst (dispatch (Suc n) h object t e args) =
     Fired object t (VString e # args) # listener_log h object t e args @ rest"
  by (simp add: dispatch_Suc split: prod.splits option.splits)

lemma listeners_addEventListener:
  "own_listeners (push_listener h object e' callback) x e =
     (if x = object \<and> e = e' then own_listeners h object e @ [callback] else own_listeners h x e)"
  by (simp add: push_listener_def own_listeners_def set_listeners_def split: option.splits)

subsection \<open>What a whole dispatch changes\<close>

lemma forEach_dispatch_unlinked:
  assumes "\<And>x h h'. snd (f x h) = Some h' \<Longrightarrow> unlinked t h h'"
    and "snd (forEach_dispatch xs f h) = Some h'"
  shows "unlinked t h h'"
  using assms
proof (induction xs arbitrary: h)
  case Nil
  then show ?case by (simp add: unlinked_refl)
next
  case (Cons x xs)
  obtain log r where fx: "f x h = (log, r)" by (cases "f x h")
  show ?case
  proof (cases r)
    case None
    with fx Cons.prems(2) show ?thesis by simp
  next
    case (Some h1)
    have u1: "unlinked t h h1" using Cons.prems(1) [of x h h1] fx Some by simp
    have step: "snd (forEach_dispatch xs f h1) = Some h'"
      using Cons.prems(2) fx Some by (simp split: prod.splits)
    have "unlinked t h1 h'"
      by (rule Cons.IH [OF Cons.prems(1) step])
    with u1 show ?thesis by (rule unlinked_trans)
  qed
qed

lemma dispatch_unlinked:
  "snd (dispatch n h object t e args) = Some h' \<Longrightarrow> unlinked t h h'"
proof (induction n arbitrary: h object h')
  case 0
  then show ?case by simp
next
  case (Suc n)
  let ?h2 = "after_listeners h object t e args"
  let ?f = "\<lambda>other h'. dispatch n h' other t e args"
  obtain log3 r3 where fe: "forEach_dispatch (direct_targets h object (Some e)) ?f ?h2 = (log3, r3)"
    by (cases "forEach_dispatch (direct_targets h object (Some e)) ?f ?h2")
  from Suc.prems fe obtain h3 where r3: "r3 = Some h3"
    by (cases r3) (simp_all add: dispatch_Suc)
  have u2: "unlinked t h ?h2" by (rule unlinked_after_listeners)
  have "snd (forEach_dispatch (direct_targets h object (Some e)) ?f ?h2) = Some h3"
    using fe r3 by simp
  then have u3: "unlinked t ?h2 h3"
    by (rule forEach_dispatch_unlinked [rotated]) (rule Suc.IH)
  show ?case
  proof (cases "direct_targets h object (Some e) = [] \<and> object \<noteq> BrainBrowser_events")
    case True
    then have "snd (dispatch n h3 BrainBrowser_events t e args) = Some h'"
      using Suc.prems fe r3 by (simp add: dispatch_Suc)
    then have "unlinked t h3 h'" by (rule Suc.IH)
    with u2 u3 show ?thesis by (blast intro: unlinked_trans)
  next
    case False
    then have "h' = h3"
      using Suc.prems fe r3 by (auto simp add: dispatch_Suc)
    with u2 u3 show ?thesis by (blast intro: unlinked_trans)
  qed
qed

lemma listener_log_unlinked:
  "unlinked t h h' \<Longrightarrow> listener_log h' x this e args = listener_log h x this e args"
  by (simp add: listener_log_def unlinked_listeners)

lemma dispatch_leaf:
  assumes "direct_targets h x (Some e) = []"
    and "direct_targets h BrainBrowser_events (Some e) = []"
  shows "dispatch (Suc (Suc n)) h x t e args =
    (Fired x t (VString e # args) # listener_log h x t e args @
       (if x = BrainBrowser_events then []
        else Fired BrainBrowser_events t (VString e # args) #
             listener_log h BrainBrowser_events t e args),
     Some (if x = BrainBrowser_events then after_listeners h x t e args
           else after_listeners (after_listeners h x t e args) BrainBrowser_events t e args))"
proof (cases "x = BrainBrowser_events")
  case True
  with assms show ?thesis by (simp add: dispatch_Suc)
next
  case False
  let ?h2 = "after_listeners h x t e args"
  have u: "unlinked t h ?h2" by (rule unlinked_after_listeners)
  have d: "direct_targets ?h2 BrainBrowser_events (Some e) = []"
    using u assms(2) by (rule unlinked_direct_Nil)
  have r: "dispatch (Suc n) ?h2 BrainBrowser_events t e args =
        (Fired BrainBrowser_events t (VString e # args) #
           listener_log h BrainBrowser_events t e args,
         Some (after_listeners ?h2 BrainBrowser_events t e args))"
    using d by (simp add: dispatch_Suc listener_log_unlinked [OF u])
  show ?thesis
    using False assms(1) by (simp add: dispatch_Suc [of "Suc n"] r)
qed

lemma dispatch_single:
  assumes "direct_targets h x (Some e) = [y]"
  shows "dispatch (Suc n) h x t e args =
    (Fired x t (VString e # args) # listener_log h x t e args @
       fst (dispatch n (after_listeners h x t e args) y t e args),
     snd (dispatch n (after_listeners h x t e args) y t e args))"
  using assms by (simp add: dispatch_Suc split: prod.splits option.splits)

subsection \<open>The methods on names that no prototype defines\<close>

lemma ordinary_star: "ordinary ''*''"
  by (simp add: ordinary_def Array_prototype_def Object_prototype_def)

lemma ordinary_eventmodelcleanup: "ordinary ''eventmodelcleanup''"
  by (simp add: ordinary_def Array_prototype_def Object_prototype_def)

lemma star_not_prototype: "''*'' \<notin> set Object_prototype"
  using ordinary_star by (simp add: ordinary_def)

lemma ordinary_not_prototype: "ordinary e \<Longrightarrow> e \<notin> set Object_prototype"
  by (simp add: ordinary_def)

lemma read_targets:
  "e \<notin> set Object_prototype \<Longrightarrow> array_or_empty (get_targets h object e) = Inr (own_targets h object e)"
  by (simp add: array_or_empty_def get_targets_def own_targets_def split: option.splits)

lemma read_targets_prototype:
  "e \<in> set Object_prototype \<Longrightarrow> array_or_empty (get_targets h object e) = Inl TypeError"
  by (simp add: array_or_empty_def get_targets_def)

lemma directPropagationTargets_Some:
  "e \<notin> set Object_prototype \<Longrightarrow>
   directPropagationTargets h object (Some e) = Inr (direct_targets h object (Some e))"
  by (simp add: directPropagationTargets_def direct_targets_def read_targets star_not_prototype)

lemma directPropagationTargets_prototype:
  "e \<in> set Object_prototype \<Longrightarrow> directPropagationTargets h object (Some e) = Inl TypeError"
  by (simp add: directPropagationTargets_def read_targets_prototype)

lemma forEach_name_own:
  "forEach_name names
     (\<lambda>name propagation_targets.
        case map_of pe name of
          None \<Rightarrow> Inr propagation_targets
        | Some ts \<Rightarrow> Inr (foldl push_unique propagation_targets ts))
     acc =
   Inr (foldl (\<lambda>propagation_targets name.
                 foldl push_unique propagation_targets
                   (case map_of pe name of None \<Rightarrow> [] | Some ts \<Rightarrow> ts))
          acc names)"
  by (induction names arbitrary: acc) (simp_all split: option.splits)

lemma directPropagationTargets_None:
  "directPropagationTargets h object None = Inr (direct_targets h object None)"
  by (simp add: directPropagationTargets_def direct_targets_def own_targets_def forEach_name_own)

lemma directPropagationTargets_Inr:
  assumes "directPropagationTargets h object event_name = Inr ts"
  shows "ts = direct_targets h object event_name"
proof (cases event_name)
  case None
  with assms show ?thesis by (simp add: directPropagationTargets_None)
next
  case (Some e)
  show ?thesis
  proof (cases "e \<in> set Object_prototype")
    case True
    with assms Some show ?thesis by (simp add: directPropagationTargets_prototype)
  next
    case False
    with assms Some show ?thesis by (simp add: directPropagationTargets_Some)
  qed
qed

lemma forEach_recursive_lift:
  "(\<And>x s. x \<in> set xs \<Longrightarrow> f x s = map_option Inr (g x s)) \<Longrightarrow>
   forEach_recursive xs f s = map_option Inr (forEach xs g s)"
  by (induction xs arbitrary: s) (auto split: option.splits)

lemma allPropagationTargets_direct:
  assumes "\<And>x. directPropagationTargets h x event_name = Inr (direct_targets h x event_name)"
  shows "allPropagationTargets n h object event_name =
         map_option Inr (all_targets n h object event_name)"
proof (induction n arbitrary: object)
  case 0
  show ?case by simp
next
  case (Suc n)
  have body: "\<And>t s. (case allPropagationTargets n h t event_name of
                   None \<Rightarrow> None
                 | Some (Inl err) \<Rightarrow> Some (Inl err)
                 | Some (Inr recursive_targets) \<Rightarrow> Some (Inr (foldl push_unique s recursive_targets))) =
               map_option Inr (case all_targets n h t event_name of
                   None \<Rightarrow> None
                 | Some recursive_targets \<Rightarrow> Some (foldl push_unique s recursive_targets))"
    by (simp add: Suc.IH split: option.splits)
  show ?case
    by (simp add: assms Let_def body forEach_recursive_lift)
qed

lemma allPropagationTargets_Some:
  "e \<notin> set Object_prototype \<Longrightarrow>
   allPropagationTargets n h object (Some e) = map_option Inr (all_targets n h object (Some e))"
  by (rule allPropagationTargets_direct) (simp add: directPropagationTargets_Some)

lemma allPropagationTargets_None:
  "allPropagationTargets n h object None = map_option Inr (all_targets n h object None)"
  by (rule allPropagationTargets_direct) (simp add: directPropagationTargets_None)

lemma allPropagationTargets_prototype:
  "e \<in> set Object_prototype \<Longrightarrow>
   allPropagationTargets (Suc n) h object (Some e) = Some (Inl TypeError)"
  by (simp add: directPropagationTargets_prototype)

lemma read_listeners:
  "ordinary e \<Longrightarrow>
   get_listeners h object e =
     (case event_listeners (h object) e of None \<Rightarrow> Undefined | Some callbacks \<Rightarrow> Own callbacks)"
  by (simp add: get_listeners_def ordinary_def)

lemma addEventListener_ordinary:
  "ordinary e \<Longrightarrow> addEventListener h object e callback = Inr (push_listener h object e callback)"
  by (simp add: addEventListener_def push_listener_def read_listeners split: option.splits)

lemma addEventListener_Inr:
  assumes "addEventListener h object e callback = Inr h'"
  shows "h' = push_listener h object e callback"
  using assms
  by (auto simp add: addEventListener_def push_listener_def get_listeners_def
           split: if_splits option.splits property.splits)

lemma run_listeners_ordinary:
  "ordinary e \<Longrightarrow>
   run_listeners h object e this args = Inr (run_callbacks (own_listeners h object e) this args h)"
  by (simp add: run_listeners_def own_listeners_def read_listeners split: option.splits)

lemma forEach_target_lift:
  "forEach_target xs (\<lambda>x h. (fst (g x h), map_option Inr (snd (g x h)))) h =
   (fst (forEach_dispatch xs g h), map_option Inr (snd (forEach_dispatch xs g h)))"
proof (induction xs arbitrary: h)
  case Nil
  show ?case by simp
next
  case (Cons x xs)
  show ?case
  proof (cases "g x h")
    case (Pair log r)
    show ?thesis
    proof (cases r)
      case None
      with Pair show ?thesis by simp
    next
      case (Some h')
      with Pair show ?thesis
        by (simp add: Cons.IH split: prod.splits)
    qed
  qed
qed

lemma triggerEvent_ordinary:
  assumes "ordinary e"
  shows "triggerEvent n h object this e args =
         (fst (dispatch n h object this e args), map_option Inr (snd (dispatch n h object this e args)))"
proof (induction n arbitrary: h object)
  case 0
  show ?case by simp
next
  case (Suc n)
  have d: "directPropagationTargets h object (Some e) = Inr (direct_targets h object (Some e))"
    using assms by (simp add: directPropagationTargets_Some ordinary_not_prototype)
  obtain log1 h1 where r1: "run_callbacks (own_listeners h object e) this args h = (log1, h1)"
    by (cases "run_callbacks (own_listeners h object e) this args h")
  obtain log2 h2 where
    r2: "run_callbacks (own_listeners h1 object ''*'') this (VString e # args) h1 = (log2, h2)"
    by (cases "run_callbacks (own_listeners h1 object ''*'') this (VString e # args) h1")
  have l1: "run_listeners h object e this args = Inr (log1, h1)"
    using r1 by (simp add: run_listeners_ordinary [OF assms])
  have l2: "run_listeners h1 object ''*'' this (VString e # args) = Inr (log2, h2)"
    using r2 by (simp add: run_listeners_ordinary [OF ordinary_star])
  obtain log3 r3 where
    r3: "forEach_dispatch (direct_targets h object (Some e))
           (\<lambda>other h'. dispatch n h' other this e args) h2 = (log3, r3)"
    by (cases "forEach_dispatch (direct_targets h object (Some e))
                 (\<lambda>other h'. dispatch n h' other this e args) h2")
  have body: "(\<lambda>other h'. triggerEvent n h' other this e args) =
      (\<lambda>other h'. (fst (dispatch n h' other this e args),
                    map_option Inr (snd (dispatch n h' other this e args))))"
    by (simp add: Suc.IH)
  have f3: "forEach_target (direct_targets h object (Some e))
              (\<lambda>other h'. triggerEvent n h' other this e args) h2 = (log3, map_option Inr r3)"
    unfolding body forEach_target_lift using r3 by simp
  show ?case
  proof (cases r3)
    case None
    with d l1 l2 r1 r2 r3 f3 show ?thesis
      by (simp add: dispatch.simps(2) Let_def)
  next
    case (Some h3)
    obtain log4 r4 where r4: "dispatch n h3 BrainBrowser_events this e args = (log4, r4)"
      by (cases "dispatch n h3 BrainBrowser_events this e args")
    then have t4: "triggerEvent n h3 BrainBrowser_events this e args = (log4, map_option Inr r4)"
      by (simp add: Suc.IH)
    from Some d l1 l2 r1 r2 r3 f3 r4 t4 show ?thesis
      by (simp add: dispatch.simps(2) Let_def)
  qed
qed



lemma propagateEventTo_ordinary:
  assumes "e \<notin> set Object_prototype"
  shows "propagateEventTo fuel h object e (EventObject other) =
     (if object = BrainBrowser_events then Some (Inl (cycle_error e))
      else (case all_targets fuel h other (Some e) of
              None \<Rightarrow> None
            | Some ts \<Rightarrow>
                if object \<in> set ts then Some (Inl (cycle_error e))
                else Some (Inr (record_edge h object e other))))"
proof -
  have listen: "\<And>h1. addEventListener h1 other ''eventmodelcleanup'' (Cleanup object other) =
      Inr (push_listener h1 other ''eventmodelcleanup'' (Cleanup object other))"
    by (rule addEventListener_ordinary [OF ordinary_eventmodelcleanup])
  show ?thesis
    by (simp add: propagateEventTo_def record_edge_def Let_def allPropagationTargets_Some [OF assms]
          read_targets [OF assms] directPropagationTargets_None listen
        split: option.splits)
qed

lemma propagateEventTo_prototype:
  assumes "e \<in> set Object_prototype" and "object \<noteq> BrainBrowser_events"
  shows "propagateEventTo (Suc fuel) h object e (EventObject other) = Some (Inl TypeError)"
  using assms(2)
  by (simp add: propagateEventTo_def allPropagationTargets_prototype [OF assms(1)]
        del: allPropagationTargets.simps)

lemma propagateEventTo_not_prototype:
  assumes "propagateEventTo fuel h object e other_arg = Some (Inr h')"
  shows "e \<notin> set Object_prototype"
proof
  assume p: "e \<in> set Object_prototype"
  from assms obtain other where o: "other_arg = EventObject other"
    by (cases other_arg) (simp_all add: propagateEventTo_def)
  from assms o have n: "object \<noteq> BrainBrowser_events"
    by (auto simp add: propagateEventTo_def)
  show False
  proof (cases fuel)
    case 0
    with assms o n show False by (simp add: propagateEventTo_def)
  next
    case (Suc k)
    with assms o propagateEventTo_prototype [OF p n, of k h other] show False by simp
  qed
qed

declare allPropagationTargets.simps(2) [simp del]

declare triggerEvent.simps(2) [simp del]

subsection \<open>What a dispatch changes, for every event name\<close>

lemma run_listeners_unlinked:
  assumes "run_listeners h object e t args = Inr (log, h1)"
  shows "unlinked t h h1"
proof (cases "get_listeners h object e")
  case Undefined
  with assms show ?thesis by (simp add: run_listeners_def unlinked_refl)
next
  case Inherited
  with assms show ?thesis by (simp add: run_listeners_def)
next
  case (Number n)
  with assms show ?thesis by (simp add: run_listeners_def unlinked_refl split: if_splits)
next
  case (Own callbacks)
  with assms have "h1 = snd (run_callbacks callbacks t args h)"
    by (simp add: run_listeners_def)
  then show ?thesis by (simp add: unlinked_run_callbacks)
qed

lemma forEach_target_unlinked:
  assumes "\<And>x h h'. snd (f x h) = Some (Inr h') \<Longrightarrow> unlinked t h h'"
    and "snd (forEach_target xs f h) = Some (Inr h')"
  shows "unlinked t h h'"
  using assms
proof (induction xs arbitrary: h)
  case Nil
  then show ?case by (simp add: unlinked_refl)
next
  case (Cons x xs)
  obtain log r where fx: "f x h = (log, r)" by (cases "f x h")
  from Cons.prems(2) fx obtain h1 where r: "r = Some (Inr h1)"
    by (cases r; cases "the r") (auto split: prod.splits)
  have u1: "unlinked t h h1" using Cons.prems(1) [of x h h1] fx r by simp
  have step: "snd (forEach_target xs f h1) = Some (Inr h')"
    using Cons.prems(2) fx r by (simp split: prod.splits)
  have "unlinked t h1 h'"
    by (rule Cons.IH [OF Cons.prems(1) step])
  with u1 show ?case by (rule unlinked_trans)
qed

lemma triggerEvent_unlinked:
  "snd (triggerEvent n h object t e args) = Some (Inr h') \<Longrightarrow> unlinked t h h'"
proof (induction n arbitrary: h object h')
  case 0
  then show ?case by simp
next
  case (Suc n)
  let ?f = "\<lambda>other h'. triggerEvent n h' other t e args"
  from Suc.prems obtain propagate_to where
    d: "directPropagationTargets h object (Some e) = Inr propagate_to"
    by (cases "directPropagationTargets h object (Some e)")
       (simp_all add: triggerEvent.simps(2) Let_def)
  from Suc.prems d obtain log1 h1 where l1: "run_listeners h object e t args = Inr (log1, h1)"
    by (cases "run_listeners h object e t args")
       (auto simp add: triggerEvent.simps(2) Let_def)
  from Suc.prems d l1 obtain log2 h2 where
    l2: "run_listeners h1 object ''*'' t (VString e # args) = Inr (log2, h2)"
    by (cases "run_listeners h1 object ''*'' t (VString e # args)")
       (auto simp add: triggerEvent.simps(2) Let_def)
  obtain log3 r3 where fe: "forEach_target propagate_to ?f h2 = (log3, r3)"
    by (cases "forEach_target propagate_to ?f h2")
  from Suc.prems d l1 l2 fe obtain h3 where r3: "r3 = Some (Inr h3)"
    by (cases r3; cases "the r3") (auto simp add: triggerEvent.simps(2) Let_def)
  have u1: "unlinked t h h1" using l1 by (rule run_listeners_unlinked)
  have u2: "unlinked t h1 h2" using l2 by (rule run_listeners_unlinked)
  have "snd (forEach_target propagate_to ?f h2) = Some (Inr h3)"
    using fe r3 by simp
  then have u3: "unlinked t h2 h3"
    by (rule forEach_target_unlinked [rotated]) (rule Suc.IH)
  have u: "unlinked t h h3"
    using u1 u2 u3 by (blast intro: unlinked_trans)
  show ?case
  proof (cases "propagate_to = [] \<and> object \<noteq> BrainBrowser_events")
    case True
    with Suc.prems d l1 l2 fe r3
    have "snd (triggerEvent n h3 BrainBrowser_events t e args) = Some (Inr h')"
      by (simp add: triggerEvent.simps(2) Let_def split: prod.splits)
    then have "unlinked t h3 h'" by (rule Suc.IH)
    with u show ?thesis by (rule unlinked_trans)
  next
    case False
    with Suc.prems d l1 l2 fe r3 have "h' = h3"
      by (auto simp add: triggerEvent.simps(2) Let_def)
    with u show ?thesis by simp
  qed
qed

subsection \<open>Reading the registries after each method\<close>

lemma propagateEventTo_Inr:
  assumes "propagateEventTo fuel h object e other_arg = Some (Inr h')"
  obtains other ts where "other_arg = EventObject other"
    and "object \<noteq> BrainBrowser_events"
    and "all_targets fuel h other (Some e) = Some ts"
    and "object \<notin> set ts"
    and "h' = record_edge h object e other"
proof -
  have np: "e \<notin> set Object_prototype"
    using assms by (rule propagateEventTo_not_prototype)
  from assms obtain other where o: "other_arg = EventObject other"
    by (cases other_arg) (simp_all add: propagateEventTo_def)
  from assms show ?thesis
    using that unfolding o propagateEventTo_ordinary [OF np]
    by (auto split: if_splits option.splits)
qed

lemma set_foldl_push_unique: "set (foldl push_unique acc xs) = set acc \<union> set xs"
  by (induction xs arbitrary: acc) (auto simp: push_unique_def)

lemma distinct_foldl_push_unique: "distinct acc \<Longrightarrow> distinct (foldl push_unique acc xs)"
  by (induction xs arbitrary: acc) (auto simp: push_unique_def)

lemma set_direct_Some:
  "set (direct_targets h x (Some e)) = set (own_targets h x e) \<union> set (own_targets h x ''*'')"
  by (simp add: direct_targets_def set_foldl_push_unique)

lemma set_foldl_names:
  "set (foldl (\<lambda>a name. foldl push_unique a (f name)) acc names) =
   set acc \<union> (\<Union>name \<in> set names. set (f name))"
  by (induction names arbitrary: acc) (auto simp: set_foldl_push_unique)

lemma distinct_foldl_names:
  "distinct acc \<Longrightarrow> distinct (foldl (\<lambda>a name. foldl push_unique a (f name)) acc names)"
  by (induction names arbitrary: acc) (auto simp: distinct_foldl_push_unique)

lemma distinct_direct: "distinct (direct_targets h x e)"
  by (simp add: direct_targets_def distinct_foldl_names)

lemma targets_Nil_no_key:
  "e \<notin> fst ` set (propagated_events (h x)) \<Longrightarrow> own_targets h x e = []"
  by (simp add: own_targets_def map_of_eq_None_iff [THEN iffD2])

lemma set_direct_None:
  "set (direct_targets h x None) = (\<Union>e. set (own_targets h x e))"
proof -
  have "set (direct_targets h x None) =
        (\<Union>e \<in> fst ` set (propagated_events (h x)). set (own_targets h x e))"
    by (simp add: direct_targets_def set_foldl_names)
  also have "\<dots> = (\<Union>e. set (own_targets h x e))"
    using targets_Nil_no_key [of _ h x] by fastforce
  finally show ?thesis .
qed

lemma targets_set_targets:
  "own_targets (set_targets h object e ts) x e' =
     (if x = object \<and> e' = e then ts else own_targets h x e')"
  by (simp add: set_targets_def own_targets_def update_conv')

lemma listeners_set_targets: "own_listeners (set_targets h object e ts) x e' = own_listeners h x e'"
  by (simp add: set_targets_def own_listeners_def)

lemma targets_addEventListener: "own_targets (push_listener h object e cb) x e' = own_targets h x e'"
  by (simp add: push_listener_def set_listeners_def own_targets_def split: option.splits)

lemma targets_record_edge:
  "own_targets (record_edge h object e other) x e' =
     (if x = object \<and> e' = e then push_unique (own_targets h object e) other else own_targets h x e')"
  by (simp add: record_edge_def Let_def targets_set_targets targets_addEventListener push_unique_def)

lemma listeners_record_edge:
  "own_listeners (record_edge h object e other) x e' =
     (if x = other \<and> e' = ''eventmodelcleanup'' \<and> (\<forall>e''. other \<notin> set (own_targets h object e''))
      then own_listeners h other ''eventmodelcleanup'' @ [Cleanup object other]
      else own_listeners h x e')"
  by (auto simp add: record_edge_def Let_def listeners_set_targets listeners_addEventListener
      set_direct_None targets_set_targets)

lemma targets_stopPropagatingTo:
  "own_targets (stopPropagatingTo h object other) x e =
     (if x = object then filter (\<lambda>target. target \<noteq> other) (own_targets h object e) else own_targets h x e)"
proof (cases "x = object")
  case True
  have "propagated_events (stopPropagatingTo h object other object) =
        drop_target other (propagated_events (h object))"
    by (simp add: stopPropagatingTo_def drop_target_def)
  then show ?thesis using True by (simp add: targets_drop_target)
next
  case False
  then show ?thesis by (simp add: stopPropagatingTo_def own_targets_def)
qed

lemma listeners_stopPropagatingTo:
  "own_listeners (stopPropagatingTo h object other) x e = own_listeners h x e"
  by (simp add: stopPropagatingTo_def own_listeners_def)

subsection \<open>Invariants of the reachable heaps\<close>

lemma propagated_events_push_listener:
  "propagated_events (push_listener h object e callback x) = propagated_events (h x)"
  by (simp add: push_listener_def set_listeners_def split: option.splits)

lemma propagated_events_record_edge:
  "x \<noteq> object \<Longrightarrow> propagated_events (record_edge h object e other x) = propagated_events (h x)"
  by (simp add: record_edge_def Let_def set_targets_def propagated_events_push_listener)

lemma unlinked_no_edges:
  "unlinked t h h' \<Longrightarrow> propagated_events (h x) = [] \<Longrightarrow> propagated_events (h' x) = []"
  unfolding unlinked_def drop_target_def by (metis list.simps(8))

lemma reachable_root_no_edges:
  "reachable h \<Longrightarrow> propagated_events (h BrainBrowser_events) = []"
proof (induction rule: reachable.induct)
  case initial
  show ?case by (simp add: initial_heap_def empty_model_def)
next
  case (model h object)
  then show ?case by (simp add: addEventModel_def empty_model_def)
next
  case (listen h object event_name k h')
  from listen.hyps(2) have "h' = push_listener h object event_name (Handler k)"
    by (rule addEventListener_Inr)
  with listen.IH show ?case by (simp add: propagated_events_push_listener)
next
  case (propagate h fuel object event_name other h')
  from propagate.hyps(2) obtain t where "object \<noteq> BrainBrowser_events"
    and "h' = record_edge h object event_name t"
    by (rule propagateEventTo_Inr)
  with propagate.IH show ?case by (simp add: propagated_events_record_edge)
next
  case (stop h object other)
  then show ?case by (simp add: stopPropagatingTo_def)
next
  case (trigger h fuel object this event_name args log h')
  have "unlinked this h h'"
    using trigger.hyps(2) triggerEvent_unlinked [of fuel h object this event_name args h'] by simp
  then show ?case using trigger.IH by (rule unlinked_no_edges)
qed

lemma direct_no_edges:
  "propagated_events (h x) = [] \<Longrightarrow> direct_targets h x e = []"
  by (cases e) (simp_all add: direct_targets_def own_targets_def)

lemma reachable_root_direct:
  "reachable h \<Longrightarrow> direct_targets h BrainBrowser_events e = []"
  by (simp add: reachable_root_no_edges direct_no_edges)

lemma unlinked_targets_subset:
  "unlinked t h h' \<Longrightarrow> set (own_targets h' x e) \<subseteq> set (own_targets h x e)"
  using unlinked_targets [of t h h' x e] by auto

lemma cleanup_registered_record_edge:
  assumes "cleanup_registered h t"
  shows "cleanup_registered (record_edge h object e other) t"
  unfolding cleanup_registered_def
proof (intro allI impI)
  fix x e'
  assume in_targets: "t \<in> set (own_targets (record_edge h object e other) x e')"
  show "Cleanup x t \<in> set (own_listeners (record_edge h object e other) t ''eventmodelcleanup'')"
  proof (cases "t \<in> set (own_targets h x e')")
    case True
    with assms have "Cleanup x t \<in> set (own_listeners h t ''eventmodelcleanup'')"
      by (auto simp add: cleanup_registered_def)
    then show ?thesis by (auto simp add: listeners_record_edge)
  next
    case False
    with in_targets have new: "x = object" "t = other"
      by (auto simp add: targets_record_edge push_unique_def split: if_splits)
    show ?thesis
    proof (cases "\<forall>e''. other \<notin> set (own_targets h object e'')")
      case True
      then show ?thesis by (simp add: new listeners_record_edge)
    next
      case False
      then obtain e'' where "other \<in> set (own_targets h object e'')" by blast
      with assms new have "Cleanup object other \<in> set (own_listeners h other ''eventmodelcleanup'')"
        by (auto simp add: cleanup_registered_def)
      then show ?thesis by (simp add: new listeners_record_edge)
    qed
  qed
qed

subsection \<open>Logs and first targets\<close>

lemma filter_fired_on_listener_log: "filter (fired_on x) (listener_log h y t e args) = []"
  by (simp add: listener_log_def filter_empty_conv)

lemma propagateEventTo_record_edge:
  assumes "object \<noteq> BrainBrowser_events"
    and "all_targets fuel h other (Some e) = Some ts"
    and "object \<notin> set ts"
    and "e \<notin> set Object_prototype"
  shows "propagateEventTo fuel h object e (EventObject other) = Some (Inr (record_edge h object e other))"
  using assms(1-3) by (simp add: propagateEventTo_ordinary [OF assms(4)])



subsection \<open>Self-propagation\<close>

lemma all_targets_no_direct:
  "direct_targets h x e = [] \<Longrightarrow> all_targets (Suc n) h x e = Some []"
  by simp

lemma self_propagation_accepted:
  assumes "A \<noteq> BrainBrowser_events" and "direct_targets h A (Some E) = []"
    and "E \<notin> set Object_prototype"
  shows "propagateEventTo (Suc n) h A E (EventObject A) = Some (Inr (record_edge h A E A))"
    and "own_targets (record_edge h A E A) A E = [A]"
proof -
  have "all_targets (Suc n) h A (Some E) = Some []"
    using assms(2) by (rule all_targets_no_direct)
  with assms(1) show "propagateEventTo (Suc n) h A E (EventObject A) = Some (Inr (record_edge h A E A))"
    by (rule propagateEventTo_record_edge) (simp_all add: assms(3))
  have "own_targets h A E = []"
    using assms(2) set_direct_Some [of h A E] by simp
  then show "own_targets (record_edge h A E A) A E = [A]"
    by (simp add: targets_record_edge push_unique_def)
qed

lemma self_loop_query_diverges:
  assumes "A \<in> set (direct_targets h A e)"
  shows "all_targets n h A e = None"
proof (induction n)
  case 0
  show ?case by simp
next
  case (Suc n)
  have "\<And>acc. A \<in> set xs \<Longrightarrow>
          forEach xs (\<lambda>target propagation_targets.
              case all_targets n h target e of None \<Rightarrow> None
              | Some recursive_targets \<Rightarrow>
                  Some (foldl push_unique propagation_targets recursive_targets)) acc = None" for xs
    by (induction xs) (auto simp add: Suc.IH split: option.splits)
  with assms show ?case by simp
qed

lemma after_listeners_no_listeners:
  "own_listeners h x e = [] \<Longrightarrow> own_listeners h x ''*'' = [] \<Longrightarrow> after_listeners h x t e args = h"
  by (simp add: after_listeners_def)

lemma self_loop_dispatch_diverges:
  assumes "direct_targets h A (Some e) = [A]"
    and "own_listeners h A e = []" and "own_listeners h A ''*'' = []"
  shows "snd (dispatch n h A t e args) = None"
proof (induction n)
  case 0
  show ?case by simp
next
  case (Suc n)
  have "after_listeners h A t e args = h"
    using assms(2,3) by (rule after_listeners_no_listeners)
  then show ?case
    using Suc.IH by (simp add: dispatch_single [OF assms(1)])
qed

subsection \<open>The transitive query only reads the objects it visits\<close>

lemma forEach_cong_on:
  "(\<And>x s. x \<in> set xs \<Longrightarrow> f x s = g x s) \<Longrightarrow> forEach xs f s = forEach xs g s"
  by (induction xs arbitrary: s) (auto split: option.splits)

lemma forEach_query_Some:
  assumes "forEach xs
             (\<lambda>target propagation_targets.
                case q target of None \<Rightarrow> None
                | Some recursive_targets \<Rightarrow>
                    Some (foldl push_unique propagation_targets recursive_targets))
             acc = Some res"
  shows "set acc \<subseteq> set res \<and> (\<forall>x \<in> set xs. \<exists>rs. q x = Some rs \<and> set rs \<subseteq> set res)"
  using assms
proof (induction xs arbitrary: acc)
  case Nil
  then show ?case by simp
next
  case (Cons x xs)
  from Cons.prems obtain rs where qx: "q x = Some rs"
    by (cases "q x") simp_all
  with Cons.prems have rest: "forEach xs
             (\<lambda>target propagation_targets.
                case q target of None \<Rightarrow> None
                | Some recursive_targets \<Rightarrow>
                    Some (foldl push_unique propagation_targets recursive_targets))
             (foldl push_unique acc rs) = Some res"
    by simp
  from Cons.IH [OF rest] qx show ?case
    by (auto simp add: set_foldl_push_unique)
qed

lemma all_targets_Suc_Some:
  assumes "all_targets (Suc n) h x e = Some res"
  shows "set (direct_targets h x e) \<subseteq> set res"
    and "\<And>t. t \<in> set (direct_targets h x e) \<Longrightarrow>
           \<exists>rs. all_targets n h t e = Some rs \<and> set rs \<subseteq> set res"
proof -
  have "forEach (direct_targets h x e)
          (\<lambda>target propagation_targets.
             case all_targets n h target e of None \<Rightarrow> None
             | Some recursive_targets \<Rightarrow>
                 Some (foldl push_unique propagation_targets recursive_targets))
          (direct_targets h x e) = Some res"
    using assms by (simp add: Let_def)
  from forEach_query_Some [OF this]
  show "set (direct_targets h x e) \<subseteq> set res"
    and "\<And>t. t \<in> set (direct_targets h x e) \<Longrightarrow>
           \<exists>rs. all_targets n h t e = Some rs \<and> set rs \<subseteq> set res"
    by blast+
qed

lemma query_local:
  assumes agree: "\<And>y. y \<noteq> object \<Longrightarrow> propagated_events (h' y) = propagated_events (h y)"
  shows "all_targets n h x e = Some res \<Longrightarrow> x \<noteq> object \<Longrightarrow> object \<notin> set res \<Longrightarrow>
         all_targets n h' x e = Some res"
proof (induction n arbitrary: x res)
  case 0
  then show ?case by simp
next
  case (Suc n)
  have d: "direct_targets h' x e = direct_targets h x e"
    using agree [OF Suc.prems(2)] by (rule direct_same)
  have sub: "\<And>t. t \<in> set (direct_targets h x e) \<Longrightarrow>
      all_targets n h' t e = all_targets n h t e"
  proof -
    fix t
    assume t: "t \<in> set (direct_targets h x e)"
    from all_targets_Suc_Some(2) [OF Suc.prems(1) t]
    obtain rs where rs: "all_targets n h t e = Some rs" "set rs \<subseteq> set res"
      by blast
    have "t \<in> set res"
      using all_targets_Suc_Some(1) [OF Suc.prems(1)] t by blast
    with Suc.prems(3) have "t \<noteq> object" by blast
    moreover have "object \<notin> set rs" using rs(2) Suc.prems(3) by blast
    ultimately have "all_targets n h' t e = Some rs"
      using Suc.IH [OF rs(1)] by simp
    with rs(1) show "all_targets n h' t e = all_targets n h t e"
      by simp
  qed
  have "all_targets (Suc n) h' x e = all_targets (Suc n) h x e"
    by (simp add: d Let_def sub cong: forEach_cong_on)
  with Suc.prems(1) show ?case by simp
qed

lemma set_targets_same:
  "map_of (propagated_events (h object)) e = Some ts \<Longrightarrow> set_targets h object e ts = h"
  by (simp add: set_targets_def update_triv)

lemma record_edge_again:
  assumes "other \<in> set (own_targets h object e)"
  shows "record_edge h object e other = h"
proof -
  from assms obtain ts where m: "map_of (propagated_events (h object)) e = Some ts"
    and ts: "own_targets h object e = ts"
    by (cases "map_of (propagated_events (h object)) e") (auto simp add: own_targets_def)
  have h1: "set_targets h object e (own_targets h object e) = h"
    using m ts by (simp add: set_targets_same)
  have "other \<in> set (direct_targets h object None)"
    using assms by (auto simp add: set_direct_None)
  with assms h1 show ?thesis
    by (simp add: record_edge_def Let_def)
qed

lemma count_list_distinct: "distinct xs \<Longrightarrow> x \<in> set xs \<Longrightarrow> count_list xs x = 1"
  by (induction xs) auto

lemma self_propagation_again_diverges:
  assumes "A \<noteq> BrainBrowser_events" and "E \<notin> set Object_prototype"
  shows "propagateEventTo n (record_edge h A E A) A E (EventObject A) = None"
proof -
  have "A \<in> set (direct_targets (record_edge h A E A) A (Some E))"
    by (simp add: set_direct_Some targets_record_edge push_unique_def)
  then have "all_targets n (record_edge h A E A) A (Some E) = None"
    by (rule self_loop_query_diverges)
  with assms(1) show ?thesis by (simp add: propagateEventTo_ordinary [OF assms(2)])
qed

lemma wildcard_edge_refuses_reverse:
  assumes "propagateEventTo n h A ''*'' (EventObject B) = Some (Inr h1)"
    and "propagateEventTo m h1 B e2 (EventObject A) = Some r"
    and "e2 \<notin> set Object_prototype"
  shows "r = Inl (cycle_error e2)"
proof (cases "B = BrainBrowser_events")
  case True
  with assms(2) show ?thesis by (simp add: propagateEventTo_def)
next
  case False
  from assms(1) have h1: "h1 = record_edge h A ''*'' B"
    by (rule propagateEventTo_Inr) auto
  have edge: "B \<in> set (direct_targets h1 A (Some e2))"
    by (simp add: h1 set_direct_Some targets_record_edge push_unique_def)
  from assms(2) False obtain ts where q: "all_targets m h1 A (Some e2) = Some ts"
    by (cases "all_targets m h1 A (Some e2)") (simp_all add: propagateEventTo_ordinary [OF assms(3)])
  then obtain m' where "m = Suc m'"
    by (cases m) simp_all
  with q have "set (direct_targets h1 A (Some e2)) \<subseteq> set ts"
    using all_targets_Suc_Some(1) [of m' h1 A "Some e2" ts] by simp
  with edge have "B \<in> set ts" by blast
  with assms(2) False q show ?thesis
    by (simp add: propagateEventTo_ordinary [OF assms(3)])
qed

subsection \<open>The cleanup event\<close>

lemma unlinked_keeps_unlinked_target:
  "unlinked t h h' \<Longrightarrow> u \<notin> set (own_targets h x e) \<Longrightarrow> u \<notin> set (own_targets h' x e)"
  using unlinked_targets_subset [of t h h' x e] by blast

lemma unlinked_no_edge_to: "unlinked t h h' \<Longrightarrow> no_edge_to h x \<Longrightarrow> no_edge_to h' x"
  unfolding no_edge_to_def by (blast dest: unlinked_keeps_unlinked_target)

lemma run_callbacks_cleans:
  "Cleanup x t \<in> set cbs \<Longrightarrow> t \<notin> set (own_targets (snd (run_callbacks cbs t args h)) x e)"
proof (induction cbs arbitrary: h)
  case Nil
  then show ?case by simp
next
  case (Cons cb cbs)
  show ?case
  proof (cases "cb = Cleanup x t")
    case True
    have "t \<notin> set (own_targets (apply_callback cb t args h) x e)"
      by (simp add: True targets_stopPropagatingTo)
    then have "t \<notin> set (own_targets (snd (run_callbacks cbs t args (apply_callback cb t args h))) x e)"
      using unlinked_run_callbacks by (rule unlinked_keeps_unlinked_target [rotated])
    then show ?thesis by (simp add: split_beta)
  next
    case False
    with Cons.prems have "Cleanup x t \<in> set cbs" by simp
    then have "t \<notin> set (own_targets (snd (run_callbacks cbs t args (apply_callback cb t args h))) x e)"
      by (rule Cons.IH)
    then show ?thesis by (simp add: split_beta)
  qed
qed

lemma dispatch_Suc_unlinked:
  assumes "snd (dispatch (Suc n) h object t e args) = Some h'"
  shows "unlinked t (after_listeners h object t e args) h'"
proof -
  let ?h2 = "after_listeners h object t e args"
  let ?f = "\<lambda>other h'. dispatch n h' other t e args"
  obtain log3 r3 where fe: "forEach_dispatch (direct_targets h object (Some e)) ?f ?h2 = (log3, r3)"
    by (cases "forEach_dispatch (direct_targets h object (Some e)) ?f ?h2")
  from assms fe obtain h3 where r3: "r3 = Some h3"
    by (cases r3) (simp_all add: dispatch_Suc)
  have "snd (forEach_dispatch (direct_targets h object (Some e)) ?f ?h2) = Some h3"
    using fe r3 by simp
  then have u3: "unlinked t ?h2 h3"
    by (rule forEach_dispatch_unlinked [rotated]) (rule dispatch_unlinked)
  show ?thesis
  proof (cases "direct_targets h object (Some e) = [] \<and> object \<noteq> BrainBrowser_events")
    case True
    then have "snd (dispatch n h3 BrainBrowser_events t e args) = Some h'"
      using assms fe r3 by (simp add: dispatch_Suc)
    then have "unlinked t h3 h'" by (rule dispatch_unlinked)
    with u3 show ?thesis by (rule unlinked_trans)
  next
    case False
    then have "h' = h3"
      using assms fe r3 by (auto simp add: dispatch_Suc)
    with u3 show ?thesis by simp
  qed
qed

lemma cleanup_listeners_unlink:
  assumes "cleanup_registered h B"
  shows "no_edge_to (after_listeners h B B ''eventmodelcleanup'' args) B"
proof -
  let ?h1 = "snd (run_callbacks (own_listeners h B ''eventmodelcleanup'') B args h)"
  let ?h2 = "after_listeners h B B ''eventmodelcleanup'' args"
  have u1: "unlinked B h ?h1" by (rule unlinked_run_callbacks)
  have "\<And>x e. B \<notin> set (own_targets ?h1 x e)"
  proof -
    fix x e
    show "B \<notin> set (own_targets ?h1 x e)"
    proof (cases "B \<in> set (own_targets h x e)")
      case True
      with assms have "Cleanup x B \<in> set (own_listeners h B ''eventmodelcleanup'')"
        by (auto simp add: cleanup_registered_def)
      then show ?thesis by (rule run_callbacks_cleans)
    next
      case False
      with u1 show ?thesis by (rule unlinked_keeps_unlinked_target)
    qed
  qed
  then have n1: "no_edge_to ?h1 B" by (simp add: no_edge_to_def)
  have "unlinked B ?h1 ?h2"
    unfolding after_listeners_def by (rule unlinked_run_callbacks)
  then show "no_edge_to ?h2 B" using n1 by (rule unlinked_no_edge_to)
qed

lemma cleanup_dispatch_unlinks:
  assumes "cleanup_registered h B"
    and "snd (dispatch n h B B ''eventmodelcleanup'' args) = Some h'"
  shows "no_edge_to h' B"
proof (cases n)
  case 0
  with assms(2) show ?thesis by simp
next
  case (Suc m)
  let ?h2 = "after_listeners h B B ''eventmodelcleanup'' args"
  have n2: "no_edge_to ?h2 B" using assms(1) by (rule cleanup_listeners_unlink)
  have "unlinked B ?h2 h'"
    using assms(2) unfolding Suc by (rule dispatch_Suc_unlinked)
  then show ?thesis using n2 by (rule unlinked_no_edge_to)
qed

lemma filter_fired_on_forEach_dispatch:
  assumes step: "\<And>h x. no_edge_to h T \<Longrightarrow> x \<noteq> T \<Longrightarrow>
                   filter (fired_on T) (fst (dispatch n h x t e args)) = []"
  shows "no_edge_to h T \<Longrightarrow> T \<notin> set xs \<Longrightarrow>
         filter (fired_on T)
           (fst (forEach_dispatch xs (\<lambda>other h'. dispatch n h' other t e args) h)) = []"
proof (induction xs arbitrary: h)
  case Nil
  show ?case by simp
next
  case (Cons x xs)
  obtain log r where fx: "dispatch n h x t e args = (log, r)"
    by (cases "dispatch n h x t e args")
  have l: "filter (fired_on T) log = []"
    using step [of h x] Cons.prems fx by simp
  show ?case
  proof (cases r)
    case None
    with fx l show ?thesis by simp
  next
    case (Some h1)
    have "unlinked t h h1"
      using fx Some dispatch_unlinked [of n h x t e args h1] by simp
    then have "no_edge_to h1 T" using Cons.prems(1) by (rule unlinked_no_edge_to)
    then have "filter (fired_on T)
           (fst (forEach_dispatch xs (\<lambda>other h'. dispatch n h' other t e args) h1)) = []"
      using Cons.prems(2) by (simp add: Cons.IH)
    with fx Some l show ?thesis by (simp add: split_beta)
  qed
qed

lemma no_edge_never_fired:
  assumes "T \<noteq> BrainBrowser_events"
  shows "no_edge_to h T \<Longrightarrow> x \<noteq> T \<Longrightarrow>
         filter (fired_on T) (fst (dispatch n h x t e args)) = []"
proof (induction n arbitrary: h x)
  case 0
  show ?case by simp
next
  case (Suc n)
  let ?h2 = "after_listeners h x t e args"
  let ?f = "\<lambda>other h'. dispatch n h' other t e args"
  let ?d = "direct_targets h x (Some e)"
  have n2: "no_edge_to ?h2 T"
    using unlinked_after_listeners Suc.prems(1) by (rule unlinked_no_edge_to)
  have "T \<notin> set ?d"
    using Suc.prems(1) by (simp add: set_direct_Some no_edge_to_def)
  with n2 have l3: "filter (fired_on T) (fst (forEach_dispatch ?d ?f ?h2)) = []"
    by (rule filter_fired_on_forEach_dispatch [rotated]) (rule Suc.IH)
  obtain log3 r3 where fe: "forEach_dispatch ?d ?f ?h2 = (log3, r3)"
    by (cases "forEach_dispatch ?d ?f ?h2")
  show ?case
  proof (cases r3)
    case None
    with fe l3 Suc.prems(2) show ?thesis
      by (simp add: dispatch_Suc filter_fired_on_listener_log)
  next
    case (Some h3)
    have "snd (forEach_dispatch ?d ?f ?h2) = Some h3" using fe Some by simp
    then have "unlinked t ?h2 h3"
      by (rule forEach_dispatch_unlinked [rotated]) (rule dispatch_unlinked)
    then have "no_edge_to h3 T" using n2 by (rule unlinked_no_edge_to)
    then have "filter (fired_on T) (fst (dispatch n h3 BrainBrowser_events t e args)) = []"
      using assms by (simp add: Suc.IH)
    with fe Some l3 Suc.prems(2) show ?thesis
      by (simp add: dispatch_Suc filter_fired_on_listener_log)
  qed
qed

subsection \<open>stopPropagatingTo\<close>

lemma distinct_keys_set_targets:
  "distinct (map fst (propagated_events (h x))) \<Longrightarrow>
   distinct (map fst (propagated_events (set_targets h object e ts x)))"
  by (auto simp add: set_targets_def distinct_update)

lemma distinct_keys_record_edge:
  "distinct (map fst (propagated_events (h x))) \<Longrightarrow>
   distinct (map fst (propagated_events (record_edge h object e other x)))"
  by (simp add: record_edge_def Let_def distinct_keys_set_targets
      propagated_events_push_listener)

lemma reachable_distinct_keys:
  "reachable h \<Longrightarrow> distinct (map fst (propagated_events (h x)))"
proof (induction arbitrary: x rule: reachable.induct)
  case initial
  show ?case by (simp add: initial_heap_def empty_model_def)
next
  case (model h object)
  then show ?case by (simp add: addEventModel_def empty_model_def)
next
  case (listen h object event_name k h')
  from listen.hyps(2) have "h' = push_listener h object event_name (Handler k)"
    by (rule addEventListener_Inr)
  with listen.IH show ?case by (simp add: propagated_events_push_listener)
next
  case (propagate h fuel object event_name other h')
  from propagate.hyps(2) obtain t where "h' = record_edge h object event_name t"
    by (rule propagateEventTo_Inr)
  with propagate.IH show ?case by (simp add: distinct_keys_record_edge)
next
  case (stop h object other)
  have "map fst (propagated_events (stopPropagatingTo h object other x)) =
        map fst (propagated_events (h x))"
    using map_fst_drop_target [of other "propagated_events (h object)"]
    by (simp add: stopPropagatingTo_def drop_target_def)
  with stop.IH show ?case by simp
next
  case (trigger h fuel object this event_name args log h')
  have "unlinked this h h'"
    using trigger.hyps(2) triggerEvent_unlinked [of fuel h object this event_name args h'] by simp
  then have "map fst (propagated_events (h' x)) = map fst (propagated_events (h x))"
    unfolding unlinked_def by (metis map_fst_drop_target)
  with trigger.IH show ?case by simp
qed

lemma drop_target_no_edge:
  assumes "distinct (map fst pe)"
    and "\<And>e ts. map_of pe e = Some ts \<Longrightarrow> t \<notin> set ts"
  shows "drop_target t pe = pe"
proof -
  have "\<And>k ts. (k, ts) \<in> set pe \<Longrightarrow> filter (\<lambda>target. target \<noteq> t) ts = ts"
  proof -
    fix k ts
    assume "(k, ts) \<in> set pe"
    with assms(1) have "map_of pe k = Some ts" by simp
    then have "t \<notin> set ts" by (rule assms(2))
    then show "filter (\<lambda>target. target \<noteq> t) ts = ts"
      by (auto simp add: filter_id_conv)
  qed
  then show ?thesis
    unfolding drop_target_def by (intro map_idI) auto
qed

lemma stopPropagatingTo_drop_target:
  "stopPropagatingTo h x t =
     h(x := (h x)\<lparr>propagated_events := drop_target t (propagated_events (h x))\<rparr>)"
  by (simp add: stopPropagatingTo_def drop_target_def)

lemma stopPropagatingTo_no_edge:
  assumes "reachable h" and "\<And>e. t \<notin> set (own_targets h x e)"
  shows "stopPropagatingTo h x t = h"
proof -
  have "drop_target t (propagated_events (h x)) = propagated_events (h x)"
  proof (rule drop_target_no_edge)
    show "distinct (map fst (propagated_events (h x)))"
      using assms(1) by (rule reachable_distinct_keys)
  next
    fix e ts
    assume "map_of (propagated_events (h x)) e = Some ts"
    then have "own_targets h x e = ts" by (simp add: own_targets_def)
    with assms(2) [of e] show "t \<notin> set ts" by simp
  qed
  then show ?thesis
    by (simp add: stopPropagatingTo_drop_target)
qed

lemma stopPropagatingTo_idem:
  "stopPropagatingTo (stopPropagatingTo h x t) x t = stopPropagatingTo h x t"
  by (simp add: stopPropagatingTo_drop_target drop_target_idem)

subsection \<open>Fuel\<close>

text \<open>
  A call that returns within some fuel returns the same with any larger fuel: the fuel only
  bounds the depth of the recursion along propagation edges.
\<close>

lemma all_targets_more_fuel:
  "all_targets n h x e = Some res \<Longrightarrow> n \<le> m \<Longrightarrow>
   all_targets m h x e = Some res"
proof (induction n arbitrary: m x res)
  case 0
  then show ?case by simp
next
  case (Suc n)
  from Suc.prems(2) obtain m' where m: "m = Suc m'" and le: "n \<le> m'"
    by (cases m) simp_all
  have sub: "\<And>t. t \<in> set (direct_targets h x e) \<Longrightarrow>
      all_targets m' h t e = all_targets n h t e"
  proof -
    fix t
    assume "t \<in> set (direct_targets h x e)"
    from all_targets_Suc_Some(2) [OF Suc.prems(1) this]
    obtain rs where rs: "all_targets n h t e = Some rs" by blast
    then have "all_targets m' h t e = Some rs"
      using le by (rule Suc.IH)
    with rs show "all_targets m' h t e = all_targets n h t e" by simp
  qed
  have "all_targets (Suc m') h x e = all_targets (Suc n) h x e"
    by (simp add: Let_def sub cong: forEach_cong_on)
  with Suc.prems(1) m show ?case by simp
qed

lemma forEach_dispatch_same:
  assumes "\<And>x h h'. snd (f x h) = Some h' \<Longrightarrow> g x h = f x h"
  shows "snd (forEach_dispatch xs f h) = Some h' \<Longrightarrow> forEach_dispatch xs g h = forEach_dispatch xs f h"
proof (induction xs arbitrary: h)
  case Nil
  show ?case by simp
next
  case (Cons x xs)
  obtain log r where fx: "f x h = (log, r)" by (cases "f x h")
  with Cons.prems obtain h1 where r: "r = Some h1"
    by (cases r) simp_all
  have gx: "g x h = f x h"
    using assms [of x h h1] fx r by simp
  have "snd (forEach_dispatch xs f h1) = Some h'"
    using Cons.prems fx r by (simp add: split_beta)
  then have "forEach_dispatch xs g h1 = forEach_dispatch xs f h1"
    by (rule Cons.IH)
  with gx fx r show ?case by simp
qed

lemma dispatch_more_fuel:
  "snd (dispatch n h x t e args) = Some h' \<Longrightarrow> n \<le> m \<Longrightarrow>
   dispatch m h x t e args = dispatch n h x t e args"
proof (induction n arbitrary: m h x h')
  case 0
  then show ?case by simp
next
  case (Suc n)
  from Suc.prems(2) obtain m' where m: "m = Suc m'" and le: "n \<le> m'"
    by (cases m) simp_all
  let ?h2 = "after_listeners h x t e args"
  let ?d = "direct_targets h x (Some e)"
  let ?f = "\<lambda>other h'. dispatch n h' other t e args"
  let ?g = "\<lambda>other h'. dispatch m' h' other t e args"
  obtain log3 r3 where fe: "forEach_dispatch ?d ?f ?h2 = (log3, r3)"
    by (cases "forEach_dispatch ?d ?f ?h2")
  from Suc.prems(1) fe obtain h3 where r3: "r3 = Some h3"
    by (cases r3) (simp_all add: dispatch_Suc)
  have "snd (forEach_dispatch ?d ?f ?h2) = Some h3" using fe r3 by simp
  then have same: "forEach_dispatch ?d ?g ?h2 = forEach_dispatch ?d ?f ?h2"
    by (rule forEach_dispatch_same [rotated]) (rule Suc.IH [OF _ le])
  show ?case
  proof (cases "?d = [] \<and> x \<noteq> BrainBrowser_events")
    case True
    then have "snd (dispatch n h3 BrainBrowser_events t e args) = Some h'"
      using Suc.prems(1) fe r3 by (simp add: dispatch_Suc)
    then have "dispatch m' h3 BrainBrowser_events t e args =
               dispatch n h3 BrainBrowser_events t e args"
      using le by (rule Suc.IH)
    then show ?thesis
      using same fe r3 by (simp add: m dispatch_Suc)
  next
    case False
    then show ?thesis
      using same fe r3 by (auto simp add: m dispatch_Suc)
  qed
qed

lemma propagateEventTo_more_fuel:
  assumes "propagateEventTo n h object e other = Some r" and "n \<le> m"
  shows "propagateEventTo m h object e other = Some r"
proof (cases other)
  case PlainObject
  with assms(1) show ?thesis by (simp add: propagateEventTo_def)
next
  case (EventObject t)
  show ?thesis
  proof (cases "object = BrainBrowser_events")
    case True
    with assms(1) EventObject show ?thesis by (simp add: propagateEventTo_def)
  next
    case False
    show ?thesis
    proof (cases "e \<in> set Object_prototype")
      case True
      from assms(1) EventObject False obtain k where n: "n = Suc k"
        by (cases n) (simp_all add: propagateEventTo_def)
      with assms(2) obtain k' where m: "m = Suc k'"
        by (cases m) simp_all
      from assms(1) show ?thesis
        unfolding EventObject n m
        by (simp add: propagateEventTo_prototype [OF True False])
    next
      case np: False
      have "\<exists>ts. all_targets n h t (Some e) = Some ts"
        using assms(1) EventObject False
        by (cases "all_targets n h t (Some e)") (simp_all add: propagateEventTo_ordinary [OF np])
      then obtain ts where q: "all_targets n h t (Some e) = Some ts" by blast
      then have q': "all_targets m h t (Some e) = Some ts"
        using assms(2) by (rule all_targets_more_fuel)
      have "propagateEventTo m h object e (EventObject t) =
            propagateEventTo n h object e (EventObject t)"
        by (simp only: propagateEventTo_ordinary [OF np] q q')
      with assms(1) EventObject show ?thesis by simp
    qed
  qed
qed

subsection \<open>An edge under one name and the query for another\<close>

lemma all_targets_same_direct:
  assumes "\<And>x. direct_targets h' x ev = direct_targets h x ev"
  shows "all_targets n h' x ev = all_targets n h x ev"
  by (induction n arbitrary: x) (simp_all add: assms Let_def)

lemma direct_targets_record_edge_other_name:
  assumes "e1 \<noteq> e2" and "e1 \<noteq> ''*''"
  shows "direct_targets (record_edge h A e1 B) x (Some e2) = direct_targets h x (Some e2)"
  using assms by (simp add: direct_targets_def targets_record_edge)

lemma all_targets_single:
  assumes "direct_targets h A ev = [B]" and "direct_targets h B ev = []"
  shows "all_targets (Suc (Suc n)) h A ev = Some [B]"
proof -
  have "all_targets (Suc n) h B ev = Some []"
    using assms(2) by (rule all_targets_no_direct)
  with assms(1) show ?thesis
    by (subst all_targets.simps(2)) (simp del: all_targets.simps(2) add: push_unique_def)
qed

subsection \<open>The loop over the direct targets, target by target\<close>

lemma forEach_dispatch_returns:
  assumes "forEach_dispatch ts f h0 = (log3, Some h3)"
  shows "\<exists>logs hs. length logs = length ts \<and> length hs = Suc (length ts) \<and>
           hs ! 0 = h0 \<and> hs ! length ts = h3 \<and>
           (\<forall>i < length ts. f (ts ! i) (hs ! i) = (logs ! i, Some (hs ! Suc i))) \<and>
           log3 = concat logs"
  using assms
proof (induction ts arbitrary: h0 log3)
  case Nil
  then have "length [] = length ([] :: obj list) \<and> length [h0] = Suc (length ([] :: obj list)) \<and>
      [h0] ! 0 = h0 \<and> [h0] ! length ([] :: obj list) = h3 \<and>
      (\<forall>i < length ([] :: obj list). f ([] ! i) ([h0] ! i) = ([] ! i, Some ([h0] ! Suc i))) \<and>
      log3 = concat []"
    by simp
  then show ?case by blast
next
  case (Cons t ts)
  obtain l r where ft: "f t h0 = (l, r)" by (cases "f t h0")
  from Cons.prems ft obtain h1 where r: "r = Some h1"
    by (cases r) simp_all
  obtain l' where rest: "forEach_dispatch ts f h1 = (l', Some h3)" and log3: "log3 = l @ l'"
    using Cons.prems ft r by (auto split: prod.splits)
  from Cons.IH [OF rest] obtain logs hs where
    len: "length logs = length ts" "length hs = Suc (length ts)"
    and first: "hs ! 0 = h1" and last: "hs ! length ts = h3"
    and step: "\<forall>i < length ts. f (ts ! i) (hs ! i) = (logs ! i, Some (hs ! Suc i))"
    and l': "l' = concat logs"
    by blast
  have "\<forall>i < length (t # ts).
          f ((t # ts) ! i) ((h0 # hs) ! i) = ((l # logs) ! i, Some ((h0 # hs) ! Suc i))"
  proof (intro allI impI)
    fix i
    assume i: "i < length (t # ts)"
    show "f ((t # ts) ! i) ((h0 # hs) ! i) = ((l # logs) ! i, Some ((h0 # hs) ! Suc i))"
    proof (cases i)
      case 0
      with ft r first show ?thesis by simp
    next
      case (Suc j)
      with i step show ?thesis by simp
    qed
  qed
  moreover have "length (l # logs) = length (t # ts)" "length (h0 # hs) = Suc (length (t # ts))"
    "(h0 # hs) ! 0 = h0" "(h0 # hs) ! length (t # ts) = h3" "log3 = concat (l # logs)"
    using len last log3 l' by simp_all
  ultimately show ?case by blast
qed




subsection \<open>An object without incoming edges is never fired, for every event name\<close>

lemma run_listeners_log:
  assumes "run_listeners h object e t args = Inr (log, h1)"
  shows "filter (fired_on T) log = []"
proof (cases "get_listeners h object e")
  case Undefined
  with assms show ?thesis by (simp add: run_listeners_def)
next
  case Inherited
  with assms show ?thesis by (simp add: run_listeners_def)
next
  case (Number n)
  with assms show ?thesis by (simp add: run_listeners_def split: if_splits)
next
  case (Own callbacks)
  with assms have "log = fst (run_callbacks callbacks t args h)"
    by (simp add: run_listeners_def)
  then show ?thesis by (simp add: run_callbacks_log filter_empty_conv)
qed

lemma filter_fired_on_forEach_target:
  assumes step: "\<And>h x. no_edge_to h T \<Longrightarrow> x \<noteq> T \<Longrightarrow>
                   filter (fired_on T) (fst (triggerEvent n h x t e args)) = []"
  shows "no_edge_to h T \<Longrightarrow> T \<notin> set xs \<Longrightarrow>
         filter (fired_on T)
           (fst (forEach_target xs (\<lambda>other h'. triggerEvent n h' other t e args) h)) = []"
proof (induction xs arbitrary: h)
  case Nil
  show ?case by simp
next
  case (Cons x xs)
  obtain log r where fx: "triggerEvent n h x t e args = (log, r)"
    by (cases "triggerEvent n h x t e args")
  have l: "filter (fired_on T) log = []"
    using step [of h x] Cons.prems fx by simp
  show ?case
  proof (cases r)
    case None
    with fx l show ?thesis by simp
  next
    case (Some res)
    show ?thesis
    proof (cases res)
      case (Inl err)
      with Some fx l show ?thesis by simp
    next
      case (Inr h1)
      have "unlinked t h h1"
        using fx Some Inr triggerEvent_unlinked [of n h x t e args h1] by simp
      then have "no_edge_to h1 T" using Cons.prems(1) by (rule unlinked_no_edge_to)
      then have "filter (fired_on T)
             (fst (forEach_target xs (\<lambda>other h'. triggerEvent n h' other t e args) h1)) = []"
        using Cons.prems(2) by (simp add: Cons.IH)
      with fx Some Inr l show ?thesis by (simp add: split_beta)
    qed
  qed
qed

lemma triggerEvent_never_fired:
  assumes "T \<noteq> BrainBrowser_events"
  shows "no_edge_to h T \<Longrightarrow> x \<noteq> T \<Longrightarrow>
         filter (fired_on T) (fst (triggerEvent n h x t e args)) = []"
proof (induction n arbitrary: h x)
  case 0
  show ?case by simp
next
  case (Suc n)
  let ?f = "\<lambda>other h'. triggerEvent n h' other t e args"
  show ?case
  proof (cases "directPropagationTargets h x (Some e)")
    case (Inl err)
    with Suc.prems(2) show ?thesis by (simp add: triggerEvent.simps(2))
  next
    case d: (Inr propagate_to)
    then have "propagate_to = direct_targets h x (Some e)"
      by (rule directPropagationTargets_Inr)
    then have notin: "T \<notin> set propagate_to"
      using Suc.prems(1) by (simp add: set_direct_Some no_edge_to_def)
    show ?thesis
    proof (cases "run_listeners h x e t args")
      case (Inl err)
      with d Suc.prems(2) show ?thesis by (simp add: triggerEvent.simps(2))
    next
      case (Inr res1)
      obtain log1 h1 where l1: "run_listeners h x e t args = Inr (log1, h1)"
        using Inr by (cases res1) simp
      have f1: "filter (fired_on T) log1 = []" using l1 by (rule run_listeners_log)
      have n1: "no_edge_to h1 T"
        using run_listeners_unlinked [OF l1] Suc.prems(1) by (rule unlinked_no_edge_to)
      show ?thesis
      proof (cases "run_listeners h1 x ''*'' t (VString e # args)")
        case (Inl err)
        with d l1 f1 Suc.prems(2) show ?thesis by (simp add: triggerEvent.simps(2))
      next
        case (Inr res2)
        obtain log2 h2 where l2: "run_listeners h1 x ''*'' t (VString e # args) = Inr (log2, h2)"
          using Inr by (cases res2) simp
        have f2: "filter (fired_on T) log2 = []" using l2 by (rule run_listeners_log)
        have n2: "no_edge_to h2 T"
          using run_listeners_unlinked [OF l2] n1 by (rule unlinked_no_edge_to)
        obtain log3 r3 where fe: "forEach_target propagate_to ?f h2 = (log3, r3)"
          by (cases "forEach_target propagate_to ?f h2")
        have "filter (fired_on T) (fst (forEach_target propagate_to ?f h2)) = []"
          using n2 notin by (rule filter_fired_on_forEach_target [rotated]) (rule Suc.IH)
        with fe have f3: "filter (fired_on T) log3 = []" by simp
        show ?thesis
        proof (cases r3)
          case None
          with d l1 l2 fe f1 f2 f3 Suc.prems(2) show ?thesis
            by (simp add: triggerEvent.simps(2))
        next
          case (Some res3)
          show ?thesis
          proof (cases res3)
            case (Inl err)
            with Some d l1 l2 fe f1 f2 f3 Suc.prems(2) show ?thesis
              by (simp add: triggerEvent.simps(2))
          next
            case (Inr h3)
            have "snd (forEach_target propagate_to ?f h2) = Some (Inr h3)"
              using fe Some Inr by simp
            then have "unlinked t h2 h3"
              by (rule forEach_target_unlinked [rotated]) (rule triggerEvent_unlinked)
            then have "no_edge_to h3 T" using n2 by (rule unlinked_no_edge_to)
            then have "filter (fired_on T)
                         (fst (triggerEvent n h3 BrainBrowser_events t e args)) = []"
              using assms by (simp add: Suc.IH)
            moreover obtain log4 r4 where
              r4: "triggerEvent n h3 BrainBrowser_events t e args = (log4, r4)"
              by (cases "triggerEvent n h3 BrainBrowser_events t e args")
            ultimately have f4: "filter (fired_on T) log4 = []" by simp
            from Some Inr d l1 l2 fe f1 f2 f3 f4 r4 Suc.prems(2) show ?thesis
              by (simp add: triggerEvent.simps(2) Let_def)
          qed
        qed
      qed
    qed
  qed
qed

section \<open>The claims\<close>

subsection \<open>The cycle check of \<open>propagateEventTo\<close> (C1, C2, C3)\<close>

text \<open>
  C1 says that \<open>A.propagateEventTo(E, A)\<close> fails with the cycle error whatever edges \<open>A\<close>
  has. The code does not do this. Its check asks whether \<open>A\<close> is among the transitive
  targets of the new target; with \<open>A\<close> as its own target and no edge out of \<open>A\<close> yet,
  that list is empty, the call returns normally and records the edge from \<open>A\<close> to \<open>A\<close>.
  Evaluated on a fresh object 1: the call succeeds, object 1 is now its own target for
  \<open>e\<close>, and from then on a trigger of \<open>e\<close> on object 1 does not return with any fuel
  (in the source: unbounded recursion, until the stack overflows).
\<close>

theorem C1_self_propagation_accepted:
  "propagateEventTo 1 initial_heap 1 ''e'' (EventObject 1) =
     Some (Inr (record_edge initial_heap 1 ''e'' 1)) \<and>
   own_targets (record_edge initial_heap 1 ''e'' 1) 1 ''e'' = [1] \<and>
   directPropagationTargets (record_edge initial_heap 1 ''e'' 1) 1 (Some ''e'') = Inr [1] \<and>
   propagateEventTo 1 initial_heap 1 ''e'' (EventObject 1) \<noteq> Some (Inl (cycle_error ''e'')) \<and>
   (\<forall>n. snd (triggerEvent n (record_edge initial_heap 1 ''e'' 1) 1 1 ''e'' []) = None)"
proof -
  have n: "(1::nat) \<noteq> BrainBrowser_events"
    by (simp add: BrainBrowser_events_def)
  have o: "ordinary ''e''"
    by (simp add: ordinary_def Array_prototype_def Object_prototype_def)
  then have np: "''e'' \<notin> set Object_prototype"
    by (rule ordinary_not_prototype)
  have d: "direct_targets initial_heap 1 (Some ''e'') = []"
    by code_simp
  have d': "direct_targets (record_edge initial_heap 1 ''e'' 1) 1 (Some ''e'') = [1]"
    and l: "own_listeners (record_edge initial_heap 1 ''e'' 1) 1 ''e'' = []"
    and l': "own_listeners (record_edge initial_heap 1 ''e'' 1) 1 ''*'' = []"
    by code_simp+
  show ?thesis
    using self_propagation_accepted(1) [OF n d np, of 0] self_propagation_accepted(2) [OF n d np]
      self_loop_dispatch_diverges [OF d' l l', of _ 1 "[]"] d'
    by (simp add: triggerEvent_ordinary [OF o] directPropagationTargets_Some [OF np])
qed

text \<open>
  C2, as amended. The cycle check follows the edges of one event name only: the name passed
  to the call, together with \<open>*\<close>. Let \<open>A.propagateEventTo(e1, B)\<close> have succeeded for
  distinct objects \<open>A\<close> and \<open>B\<close>, and let \<open>e2\<close> be another name, not \<open>*\<close> and not a
  property name of \<open>Object.prototype\<close>. In any heap:
  \<^item> if \<open>e1\<close> is \<open>*\<close>, the edge from \<open>A\<close> to \<open>B\<close> carries \<open>e2\<close> as well, and
    \<open>B.propagateEventTo(e2, A)\<close> is never accepted: with any fuel it either does not
    return or throws the cycle error;
  \<^item> if \<open>e1\<close> is a literal name, the transitive query that \<open>B.propagateEventTo(e2, A)\<close>
    makes on \<open>A\<close> has the result that it had before the first call: the new edge is
    invisible to the check, and two edges under different literal names never forward one
    event around.

  When \<open>A\<close> had no targets for \<open>e2\<close> before the first call, the second call returns: it is
  accepted if \<open>e1\<close> is a literal name (and \<open>B\<close> is not \<open>BrainBrowser.events\<close>, which is
  refused as a source), and throws the cycle error if \<open>e1\<close> is \<open>*\<close> (and \<open>B\<close> had no
  targets for \<open>e2\<close> either).
\<close>

theorem C2_cycle_check_per_event_name:
  assumes "propagateEventTo n h A e1 (EventObject B) = Some (Inr h1)"
    and "A \<noteq> B" and "e1 \<noteq> e2" and "e2 \<noteq> ''*''" and "e2 \<notin> set Object_prototype"
  shows "(e1 = ''*'' \<longrightarrow>
            (\<forall>m. propagateEventTo m h1 B e2 (EventObject A) = None \<or>
                 propagateEventTo m h1 B e2 (EventObject A) = Some (Inl (cycle_error e2)))) \<and>
         (e1 \<noteq> ''*'' \<longrightarrow>
            (\<forall>m. allPropagationTargets m h1 A (Some e2) = allPropagationTargets m h A (Some e2))) \<and>
         (e1 \<noteq> ''*'' \<and> B \<noteq> BrainBrowser_events \<and>
          directPropagationTargets h A (Some e2) = Inr [] \<longrightarrow>
            propagateEventTo (Suc fuel) h1 B e2 (EventObject A) =
              Some (Inr (record_edge h1 B e2 A))) \<and>
         (e1 = ''*'' \<and> directPropagationTargets h A (Some e2) = Inr [] \<and>
          directPropagationTargets h B (Some e2) = Inr [] \<longrightarrow>
            propagateEventTo (Suc (Suc fuel)) h1 B e2 (EventObject A) =
              Some (Inl (cycle_error e2)))"
proof (intro conjI impI allI)
  fix m
  assume star: "e1 = ''*''"
  show "propagateEventTo m h1 B e2 (EventObject A) = None \<or>
        propagateEventTo m h1 B e2 (EventObject A) = Some (Inl (cycle_error e2))"
  proof (cases "propagateEventTo m h1 B e2 (EventObject A)")
    case None
    then show ?thesis by simp
  next
    case (Some r)
    from assms(1) have "propagateEventTo n h A ''*'' (EventObject B) = Some (Inr h1)"
      by (simp add: star)
    then have "r = Inl (cycle_error e2)"
      using Some assms(5) by (rule wildcard_edge_refuses_reverse)
    with Some show ?thesis by simp
  qed
next
  fix m
  assume lit: "e1 \<noteq> ''*''"
  from assms(1) have h1: "h1 = record_edge h A e1 B"
    by (rule propagateEventTo_Inr) auto
  have "all_targets m h1 A (Some e2) = all_targets m h A (Some e2)"
    unfolding h1
    by (rule all_targets_same_direct)
       (rule direct_targets_record_edge_other_name [OF assms(3) lit])
  then show "allPropagationTargets m h1 A (Some e2) = allPropagationTargets m h A (Some e2)"
    by (simp add: allPropagationTargets_Some [OF assms(5)])
next
  assume a: "e1 \<noteq> ''*'' \<and> B \<noteq> BrainBrowser_events \<and>
             directPropagationTargets h A (Some e2) = Inr []"
  from assms(1) have h1: "h1 = record_edge h A e1 B"
    by (rule propagateEventTo_Inr) auto
  from a have "direct_targets h A (Some e2) = []"
    by (simp add: directPropagationTargets_Some [OF assms(5)])
  with a have "direct_targets h1 A (Some e2) = []"
    by (simp add: h1 direct_targets_record_edge_other_name [OF assms(3)])
  then have "all_targets (Suc fuel) h1 A (Some e2) = Some []"
    by (rule all_targets_no_direct)
  with a show "propagateEventTo (Suc fuel) h1 B e2 (EventObject A) =
                 Some (Inr (record_edge h1 B e2 A))"
    by (intro propagateEventTo_record_edge [where ts = "[]"]) (simp_all add: assms(5))
next
  assume a: "e1 = ''*'' \<and> directPropagationTargets h A (Some e2) = Inr [] \<and>
             directPropagationTargets h B (Some e2) = Inr []"
  from assms(1) have h1: "h1 = record_edge h A ''*'' B"
    by (rule propagateEventTo_Inr) (auto simp add: a)
  from a have dA: "direct_targets h A (Some e2) = []" and dB: "direct_targets h B (Some e2) = []"
    by (simp_all add: directPropagationTargets_Some [OF assms(5)])
  from dA have tA: "own_targets h A e2 = []" "own_targets h A ''*'' = []"
    using set_direct_Some [of h A e2] by simp_all
  have dA1: "direct_targets h1 A (Some e2) = [B]"
    using tA assms(4)
    by (simp add: h1 direct_targets_def targets_record_edge push_unique_def)
  have "direct_targets h1 B (Some e2) = direct_targets h B (Some e2)"
    using assms(2) by (simp add: h1 direct_targets_def targets_record_edge)
  with dB have dB1: "direct_targets h1 B (Some e2) = []" by simp
  have q: "all_targets (Suc (Suc fuel)) h1 A (Some e2) = Some [B]"
    using dA1 dB1 by (rule all_targets_single)
  show "propagateEventTo (Suc (Suc fuel)) h1 B e2 (EventObject A) = Some (Inl (cycle_error e2))"
    by (simp only: propagateEventTo_ordinary [OF assms(5)] q) simp
qed

theorem C2_cycle_check_per_event_name_witness:
  "propagateEventTo (Suc 0) initial_heap 1 ''*'' (EventObject 2) =
     Some (Inr (record_edge initial_heap 1 ''*'' 2)) \<and>
   (1::nat) \<noteq> 2 \<and> ''*'' \<noteq> ''load'' \<and> ''load'' \<noteq> ''*'' \<and> ''load'' \<notin> set Object_prototype \<and>
   directPropagationTargets initial_heap 1 (Some ''load'') = Inr [] \<and>
   directPropagationTargets initial_heap 2 (Some ''load'') = Inr [] \<and>
   propagateEventTo (Suc (Suc 0)) (record_edge initial_heap 1 ''*'' 2) 2 ''load'' (EventObject 1) =
     Some (Inl (cycle_error ''load''))"
proof -
  have n: "(1::nat) \<noteq> BrainBrowser_events" "(1::nat) \<noteq> 2"
    by (simp_all add: BrainBrowser_events_def)
  have e: "''*'' \<noteq> ''load''" "''load'' \<noteq> ''*''"
    by simp_all
  have np: "''load'' \<notin> set Object_prototype"
    by (simp add: Object_prototype_def)
  have a: "all_targets (Suc 0) initial_heap 2 (Some ''*'') = Some []"
    by code_simp
  have p: "propagateEventTo (Suc 0) initial_heap 1 ''*'' (EventObject 2) =
     Some (Inr (record_edge initial_heap 1 ''*'' 2))"
    using n(1) a by (rule propagateEventTo_record_edge) (simp_all add: star_not_prototype)
  have d: "directPropagationTargets initial_heap 1 (Some ''load'') = Inr []"
    "directPropagationTargets initial_heap 2 (Some ''load'') = Inr []"
    by code_simp+
  show ?thesis
    using C2_cycle_check_per_event_name [OF p n(2) e(1) e(2) np, of 0] p n(2) np d
    by simp
qed

text \<open>
  The claim as worded fails: with the literal names \<open>a\<close> and \<open>b\<close> on two fresh objects,
  the second call is accepted.
\<close>

theorem C2_distinct_names_accepted_counterexample:
  "propagateEventTo 1 initial_heap 1 ''a'' (EventObject 2) =
     Some (Inr (record_edge initial_heap 1 ''a'' 2)) \<and>
   propagateEventTo 2 (record_edge initial_heap 1 ''a'' 2) 2 ''b'' (EventObject 1) =
     Some (Inr (record_edge (record_edge initial_heap 1 ''a'' 2) 2 ''b'' 1)) \<and>
   propagateEventTo 2 (record_edge initial_heap 1 ''a'' 2) 2 ''b'' (EventObject 1) \<noteq>
     Some (Inl (cycle_error ''b''))"
proof -
  have n: "(1::nat) \<noteq> BrainBrowser_events" "(2::nat) \<noteq> BrainBrowser_events"
    by (simp_all add: BrainBrowser_events_def)
  have np: "''a'' \<notin> set Object_prototype" "''b'' \<notin> set Object_prototype"
    by (simp_all add: Object_prototype_def)
  have a1: "all_targets 1 initial_heap 2 (Some ''a'') = Some []"
    by code_simp
  have a2: "all_targets 2 (record_edge initial_heap 1 ''a'' 2) 1 (Some ''b'') = Some []"
    by code_simp
  have p1: "propagateEventTo 1 initial_heap 1 ''a'' (EventObject 2) =
     Some (Inr (record_edge initial_heap 1 ''a'' 2))"
    using n(1) a1 by (rule propagateEventTo_record_edge) (simp_all add: np)
  have p2: "propagateEventTo 2 (record_edge initial_heap 1 ''a'' 2) 2 ''b'' (EventObject 1) =
     Some (Inr (record_edge (record_edge initial_heap 1 ''a'' 2) 2 ''b'' 1))"
    using n(2) a2 by (rule propagateEventTo_record_edge) (simp_all add: np)
  from p1 p2 show ?thesis by simp
qed

text \<open>
  C3, as amended. \<open>BrainBrowser.events\<close> as the source is refused with the cycle error,
  for every event name, every target that has the event model and every heap (the check
  comes before the transitive query, so no fuel is needed and no registry is read). As a
  target it is accepted: in every reachable heap, for every other object \<open>A\<close> and every
  event name \<open>E\<close> that is not a property name of \<open>Object.prototype\<close>,
  \<open>A.propagateEventTo(E, BrainBrowser.events)\<close> returns normally and
  \<open>BrainBrowser.events\<close> is then a direct target of \<open>A\<close> for \<open>E\<close>.
\<close>

theorem C3_root_refused_as_source_only:
  assumes "reachable h" and "A \<noteq> BrainBrowser_events" and "E \<notin> set Object_prototype"
  shows "propagateEventTo fuel h BrainBrowser_events E' (EventObject X) =
           Some (Inl (cycle_error E')) \<and>
         propagateEventTo (Suc fuel) h A E (EventObject BrainBrowser_events) =
           Some (Inr (record_edge h A E BrainBrowser_events)) \<and>
         (\<exists>ts. directPropagationTargets (record_edge h A E BrainBrowser_events) A (Some E) = Inr ts \<and>
               BrainBrowser_events \<in> set ts)"
proof -
  have "direct_targets h BrainBrowser_events (Some E) = []"
    using assms(1) by (rule reachable_root_direct)
  then have "all_targets (Suc fuel) h BrainBrowser_events (Some E) = Some []"
    by (rule all_targets_no_direct)
  with assms(2) have "propagateEventTo (Suc fuel) h A E (EventObject BrainBrowser_events) =
           Some (Inr (record_edge h A E BrainBrowser_events))"
    by (rule propagateEventTo_record_edge) (simp_all add: assms(3))
  then show ?thesis
    by (simp add: propagateEventTo_def directPropagationTargets_Some [OF assms(3)]
          set_direct_Some targets_record_edge push_unique_def)
qed

theorem C3_root_refused_as_source_only_witness:
  "addEventListener initial_heap 1 ''e'' (Handler 1) =
     Inr (push_listener initial_heap 1 ''e'' (Handler 1)) \<and>
   (1::nat) \<noteq> BrainBrowser_events \<and> ''e'' \<notin> set Object_prototype \<and>
   propagateEventTo (Suc 0) (push_listener initial_heap 1 ''e'' (Handler 1)) BrainBrowser_events
     ''toString'' (EventObject 2) = Some (Inl (cycle_error ''toString'')) \<and>
   propagateEventTo (Suc (Suc 0)) (push_listener initial_heap 1 ''e'' (Handler 1)) 1 ''e''
     (EventObject BrainBrowser_events) =
     Some (Inr (record_edge (push_listener initial_heap 1 ''e'' (Handler 1)) 1 ''e''
                  BrainBrowser_events))"
proof -
  have o: "ordinary ''e''"
    by (simp add: ordinary_def Array_prototype_def Object_prototype_def)
  then have np: "''e'' \<notin> set Object_prototype"
    by (rule ordinary_not_prototype)
  have l: "addEventListener initial_heap 1 ''e'' (Handler 1) =
     Inr (push_listener initial_heap 1 ''e'' (Handler 1))"
    using o by (rule addEventListener_ordinary)
  have r: "reachable (push_listener initial_heap 1 ''e'' (Handler 1))"
    using reachable.initial l by (rule reachable.listen)
  have n: "(1::nat) \<noteq> BrainBrowser_events"
    by (simp add: BrainBrowser_events_def)
  show ?thesis
    using C3_root_refused_as_source_only [OF r n np, of "Suc 0" "''toString''" 2] l n np
    by simp
qed

text \<open>
  The claim as worded fails: a fresh object registers \<open>BrainBrowser.events\<close> as its target
  for \<open>e\<close>, and the call returns normally.
\<close>

theorem C3_root_accepted_as_target_counterexample:
  "propagateEventTo 1 initial_heap 1 ''e'' (EventObject BrainBrowser_events) =
     Some (Inr (record_edge initial_heap 1 ''e'' BrainBrowser_events)) \<and>
   propagateEventTo 1 initial_heap 1 ''e'' (EventObject BrainBrowser_events) \<noteq>
     Some (Inl (cycle_error ''e'')) \<and>
   directPropagationTargets (record_edge initial_heap 1 ''e'' BrainBrowser_events) 1 (Some ''e'') =
     Inr [BrainBrowser_events]"
proof -
  have n: "(1::nat) \<noteq> BrainBrowser_events"
    by (simp add: BrainBrowser_events_def)
  have np: "''e'' \<notin> set Object_prototype"
    by (simp add: Object_prototype_def)
  have a: "all_targets 1 initial_heap BrainBrowser_events (Some ''e'') = Some []"
    by code_simp
  have p: "propagateEventTo 1 initial_heap 1 ''e'' (EventObject BrainBrowser_events) =
     Some (Inr (record_edge initial_heap 1 ''e'' BrainBrowser_events))"
    using n a by (rule propagateEventTo_record_edge) (simp_all add: np)
  have t: "directPropagationTargets (record_edge initial_heap 1 ''e'' BrainBrowser_events) 1
             (Some ''e'') = Inr [BrainBrowser_events]"
    by code_simp
  from p t show ?thesis by simp
qed

subsection \<open>Listener order (C7, C10)\<close>




text \<open>
  C10. When the literal event name \<open>*\<close> is triggered on an object that has handlers
  registered under \<open>*\<close>, the first loop runs them as the listeners of the triggered name,
  with exactly the extra arguments, and the second loop runs them again as wildcard
  listeners, with \<open>"*"\<close> prepended. So each of them is called twice in the one dispatch.
\<close>

theorem C10_wildcard_name_runs_twice:
  assumes "own_listeners h object ''*'' = callbacks" and "callbacks \<noteq> []"
  shows "\<exists>rest. fst (triggerEvent (Suc fuel) h object this ''*'' args) =
           Fired object this (VString ''*'' # args) #
           map (\<lambda>callback. Called callback this args) callbacks @
           map (\<lambda>callback. Called callback this (VString ''*'' # args)) callbacks @
           rest"
  using dispatch_log_prefix [of fuel h object this "''*''" args] assms
  by (simp add: listener_log_def triggerEvent_ordinary [OF ordinary_star])

theorem C10_wildcard_name_runs_twice_witness:
  "addEventListener initial_heap 1 ''*'' (Handler 7) =
     Inr (push_listener initial_heap 1 ''*'' (Handler 7)) \<and>
   own_listeners (push_listener initial_heap 1 ''*'' (Handler 7)) 1 ''*'' = [Handler 7] \<and>
   fst (triggerEvent (Suc (Suc 0)) (push_listener initial_heap 1 ''*'' (Handler 7)) 1 1 ''*''
          [VNumber 42]) =
     [Fired 1 1 [VString ''*'', VNumber 42],
      Called (Handler 7) 1 [VNumber 42],
      Called (Handler 7) 1 [VString ''*'', VNumber 42],
      Fired BrainBrowser_events 1 [VString ''*'', VNumber 42]]"
proof -
  have l: "own_listeners (push_listener initial_heap 1 ''*'' (Handler 7)) 1 ''*'' = [Handler 7]"
    by code_simp
  have e: "fst (triggerEvent (Suc (Suc 0)) (push_listener initial_heap 1 ''*'' (Handler 7)) 1 1 ''*''
                  [VNumber 42]) =
     [Fired 1 1 [VString ''*'', VNumber 42],
      Called (Handler 7) 1 [VNumber 42],
      Called (Handler 7) 1 [VString ''*'', VNumber 42],
      Fired BrainBrowser_events 1 [VString ''*'', VNumber 42]]"
    by code_simp
  show ?thesis
    using C10_wildcard_name_runs_twice [OF l, of 0 1 "[VNumber 42]"] l e
    by (simp add: addEventListener_ordinary [OF ordinary_star])
qed

subsection \<open>The fallback on \<open>BrainBrowser.events\<close> (C4, C5)\<close>




text \<open>
  C5, as amended, for the event names that are ordinary. If an object \<open>A\<close> has at least
  one direct propagation target for \<open>E\<close>, then its own call of \<open>triggerEvent\<close> does not
  take the fallback branch. A dispatch of \<open>E\<close> on \<open>A\<close> that returns consists of the
  trigger on \<open>A\<close>, the listeners of \<open>A\<close>, and then exactly one dispatch on each direct
  target of \<open>A\<close>, in the order of the targets: the dispatch on target \<open>i\<close> starts in the
  heap \<open>hs ! i\<close> that the one before it has left (the first in the heap that the
  listeners of \<open>A\<close> have left), returns, and writes the log \<open>logs ! i\<close>; the log of the
  whole dispatch is the entries of \<open>A\<close> followed by these logs and by nothing else, and
  the heap returned is the one that the last target has left. (A dispatch on \<open>A\<close> that
  does not return never comes to the test of the fallback.) Each of the dispatches on the
  targets applies the fallback rule for itself, so a target that has no target of its own
  still forwards to \<open>BrainBrowser.events\<close>. As the claim is worded, no listener of
  \<open>BrainBrowser.events\<close> would run as a fallback during the whole dispatch; the
  counterexample below shows one running.
\<close>

theorem C5_own_fallback_not_taken:
  assumes "ordinary E"
    and "directPropagationTargets h A (Some E) = Inr ts" and "ts \<noteq> []"
    and "triggerEvent (Suc n) h A this E X = (log, Some (Inr h'))"
  shows "\<exists>logs hs. length logs = length ts \<and> length hs = Suc (length ts) \<and>
           hs ! 0 = after_listeners h A this E X \<and> hs ! length ts = h' \<and>
           (\<forall>i < length ts.
              triggerEvent n (hs ! i) (ts ! i) this E X = (logs ! i, Some (Inr (hs ! Suc i)))) \<and>
           log = Fired A this (VString E # X) # listener_log h A this E X @ concat logs"
proof -
  let ?f = "\<lambda>other h'. dispatch n h' other this E X"
  have ts: "direct_targets h A (Some E) = ts"
    using assms(2) by (simp add: directPropagationTargets_Some [OF ordinary_not_prototype [OF assms(1)]])
  from assms(4) have d: "dispatch (Suc n) h A this E X = (log, Some h')"
    by (auto simp add: triggerEvent_ordinary [OF assms(1)] prod_eq_iff)
  obtain log3 r3 where fe: "forEach_dispatch ts ?f (after_listeners h A this E X) = (log3, r3)"
    by (cases "forEach_dispatch ts ?f (after_listeners h A this E X)")
  from d fe ts assms(3) have r3: "r3 = Some h'"
    and log: "log = Fired A this (VString E # X) # listener_log h A this E X @ log3"
    by (auto simp add: dispatch_Suc split: option.splits)
  from forEach_dispatch_returns [OF fe [unfolded r3]] obtain logs hs where
    len: "length logs = length ts" "length hs = Suc (length ts)"
    and ends: "hs ! 0 = after_listeners h A this E X" "hs ! length ts = h'"
    and step: "\<forall>i < length ts. dispatch n (hs ! i) (ts ! i) this E X = (logs ! i, Some (hs ! Suc i))"
    and log3: "log3 = concat logs"
    by blast
  from step have "\<forall>i < length ts.
      triggerEvent n (hs ! i) (ts ! i) this E X = (logs ! i, Some (Inr (hs ! Suc i)))"
    by (simp add: triggerEvent_ordinary [OF assms(1)])
  with len ends log log3 show ?thesis by blast
qed

text \<open>
  An instance: object 1 propagates \<open>e\<close> to object 2 only. The dispatch on object 1 is its
  own entry followed by the dispatch on object 2, which ends with the fallback of
  object 2; no second trigger on \<open>BrainBrowser.events\<close> follows for object 1.
\<close>

theorem C5_own_fallback_not_taken_witness:
  "ordinary ''e'' \<and>
   directPropagationTargets (record_edge initial_heap 1 ''e'' 2) 1 (Some ''e'') = Inr [2] \<and>
   fst (triggerEvent (Suc (Suc (Suc 0))) (record_edge initial_heap 1 ''e'' 2) 1 1 ''e'' [VNumber 42]) =
     Fired 1 1 [VString ''e'', VNumber 42] #
     fst (triggerEvent (Suc (Suc 0))
            (after_listeners (record_edge initial_heap 1 ''e'' 2) 1 1 ''e'' [VNumber 42])
            2 1 ''e'' [VNumber 42]) \<and>
   fst (triggerEvent (Suc (Suc (Suc 0))) (record_edge initial_heap 1 ''e'' 2) 1 1 ''e'' [VNumber 42]) =
     [Fired 1 1 [VString ''e'', VNumber 42],
      Fired 2 1 [VString ''e'', VNumber 42],
      Fired BrainBrowser_events 1 [VString ''e'', VNumber 42]]"
proof -
  let ?h = "record_edge initial_heap 1 ''e'' 2"
  let ?X = "[VNumber 42]"
  have o: "ordinary ''e''"
    by (simp add: ordinary_def Array_prototype_def Object_prototype_def)
  have d: "directPropagationTargets ?h 1 (Some ''e'') = Inr [2]"
    by code_simp
  have "case snd (triggerEvent (Suc (Suc (Suc 0))) ?h 1 1 ''e'' ?X) of
          Some (Inr h') \<Rightarrow> True | _ \<Rightarrow> False"
    by code_simp
  then obtain log h' where
    ret: "triggerEvent (Suc (Suc (Suc 0))) ?h 1 1 ''e'' ?X = (log, Some (Inr h'))"
    by (cases "triggerEvent (Suc (Suc (Suc 0))) ?h 1 1 ''e'' ?X")
       (auto split: option.splits sum.splits)
  have l: "listener_log ?h 1 1 ''e'' ?X = []"
    by code_simp
  have t: "fst (triggerEvent (Suc (Suc 0)) (after_listeners ?h 1 1 ''e'' ?X) 2 1 ''e'' ?X) =
           [Fired 2 1 [VString ''e'', VNumber 42],
            Fired BrainBrowser_events 1 [VString ''e'', VNumber 42]]"
    by code_simp
  from C5_own_fallback_not_taken [OF o d _ ret]
  obtain logs hs where len: "length logs = Suc 0"
    and first: "hs ! 0 = after_listeners ?h 1 1 ''e'' ?X"
    and step: "triggerEvent (Suc (Suc 0)) (hs ! 0) 2 1 ''e'' ?X = (logs ! 0, Some (Inr (hs ! Suc 0)))"
    and log: "log = Fired 1 1 (VString ''e'' # ?X) # listener_log ?h 1 1 ''e'' ?X @ concat logs"
    by auto
  from len have "concat logs = logs ! 0"
    by (cases logs) simp_all
  with step first have "concat logs =
      fst (triggerEvent (Suc (Suc 0)) (after_listeners ?h 1 1 ''e'' ?X) 2 1 ''e'' ?X)"
    by simp
  with log l ret have "fst (triggerEvent (Suc (Suc (Suc 0))) ?h 1 1 ''e'' ?X) =
     Fired 1 1 [VString ''e'', VNumber 42] #
     fst (triggerEvent (Suc (Suc 0)) (after_listeners ?h 1 1 ''e'' ?X) 2 1 ''e'' ?X)"
    by simp
  with o d t show ?thesis by simp
qed

text \<open>
  The claim as worded fails: object 1 propagates \<open>e\<close> to object 2, which has no target;
  triggering \<open>e\<close> on object 1 runs the listener of \<open>BrainBrowser.events\<close>, through the
  fallback of the dispatch on object 2.
\<close>

theorem C5_root_listeners_run_counterexample:
  "addEventListener initial_heap BrainBrowser_events ''e'' (Handler 9) =
     Inr (push_listener initial_heap BrainBrowser_events ''e'' (Handler 9)) \<and>
   propagateEventTo 1 (push_listener initial_heap BrainBrowser_events ''e'' (Handler 9))
     1 ''e'' (EventObject 2) =
     Some (Inr (record_edge (push_listener initial_heap BrainBrowser_events ''e'' (Handler 9))
                  1 ''e'' 2)) \<and>
   directPropagationTargets
     (record_edge (push_listener initial_heap BrainBrowser_events ''e'' (Handler 9)) 1 ''e'' 2)
     1 (Some ''e'') = Inr [2] \<and>
   fst (triggerEvent 3
          (record_edge (push_listener initial_heap BrainBrowser_events ''e'' (Handler 9)) 1 ''e'' 2)
          1 1 ''e'' [VNumber 42]) =
     [Fired 1 1 [VString ''e'', VNumber 42],
      Fired 2 1 [VString ''e'', VNumber 42],
      Fired BrainBrowser_events 1 [VString ''e'', VNumber 42],
      Called (Handler 9) 1 [VNumber 42]] \<and>
   (case snd (triggerEvent 3
          (record_edge (push_listener initial_heap BrainBrowser_events ''e'' (Handler 9)) 1 ''e'' 2)
          1 1 ''e'' [VNumber 42]) of Some (Inr h') \<Rightarrow> True | _ \<Rightarrow> False)"
proof -
  let ?h0 = "push_listener initial_heap BrainBrowser_events ''e'' (Handler 9)"
  have o: "ordinary ''e''"
    by (simp add: ordinary_def Array_prototype_def Object_prototype_def)
  have l: "addEventListener initial_heap BrainBrowser_events ''e'' (Handler 9) = Inr ?h0"
    using o by (rule addEventListener_ordinary)
  have n1: "(1::nat) \<noteq> BrainBrowser_events"
    by (simp add: BrainBrowser_events_def)
  have a1: "all_targets 1 ?h0 2 (Some ''e'') = Some []"
    by code_simp
  have p1: "propagateEventTo 1 ?h0 1 ''e'' (EventObject 2) = Some (Inr (record_edge ?h0 1 ''e'' 2))"
    using n1 a1 by (rule propagateEventTo_record_edge) (simp_all add: ordinary_not_prototype [OF o])
  have d: "directPropagationTargets (record_edge ?h0 1 ''e'' 2) 1 (Some ''e'') = Inr [2]"
    by code_simp
  have t: "fst (triggerEvent 3 (record_edge ?h0 1 ''e'' 2) 1 1 ''e'' [VNumber 42]) =
     [Fired 1 1 [VString ''e'', VNumber 42],
      Fired 2 1 [VString ''e'', VNumber 42],
      Fired BrainBrowser_events 1 [VString ''e'', VNumber 42],
      Called (Handler 9) 1 [VNumber 42]]"
    by code_simp
  have s: "case snd (triggerEvent 3 (record_edge ?h0 1 ''e'' 2) 1 1 ''e'' [VNumber 42]) of
             Some (Inr h') \<Rightarrow> True | _ \<Rightarrow> False"
    by code_simp
  from l p1 d t s show ?thesis by simp
qed

subsection \<open>Propagation along a chain (C6)\<close>




subsection \<open>Adding an edge twice (C8)\<close>

text \<open>
  C8, as amended. For a target other than the source itself: when
  \<open>propagateEventTo(E, T)\<close> has succeeded, the same call made again, with the same fuel,
  succeeds again and returns the very heap it was given: no registry changes, no second
  cleanup listener is added. \<open>T\<close> occurs exactly once among the direct own_targets of the
  source for \<open>E\<close>, so a dispatch of \<open>E\<close> on the source forwards to \<open>T\<close> once. (\<open>T\<close> may
  still be reached again through another target, as the counterexample shows; and with the
  source as its own target the second call does not return, see
  \<open>self_propagation_again_diverges\<close>.)
\<close>

theorem C8_second_call_changes_nothing:
  assumes "object \<noteq> other"
    and "propagateEventTo fuel h object E (EventObject other) = Some (Inr h1)"
  shows "propagateEventTo fuel h1 object E (EventObject other) = Some (Inr h1) \<and>
         (\<exists>ts. directPropagationTargets h1 object (Some E) = Inr ts \<and> count_list ts other = 1)"
proof -
  have np: "E \<notin> set Object_prototype"
    using assms(2) by (rule propagateEventTo_not_prototype)
  from assms(2) obtain ts where root: "object \<noteq> BrainBrowser_events"
    and q: "all_targets fuel h other (Some E) = Some ts"
    and notin: "object \<notin> set ts"
    and h1: "h1 = record_edge h object E other"
    by (rule propagateEventTo_Inr) auto
  have "\<And>y. y \<noteq> object \<Longrightarrow> propagated_events (h1 y) = propagated_events (h y)"
    by (simp add: h1 propagated_events_record_edge)
  then have "all_targets fuel h1 other (Some E) = Some ts"
    using q assms(1) [symmetric] notin by (rule query_local)
  with root have "propagateEventTo fuel h1 object E (EventObject other) =
      Some (Inr (record_edge h1 object E other))"
    using notin np by (rule propagateEventTo_record_edge)
  moreover have edge: "other \<in> set (own_targets h1 object E)"
    by (simp add: h1 targets_record_edge push_unique_def)
  then have "record_edge h1 object E other = h1"
    by (rule record_edge_again)
  moreover have "count_list (direct_targets h1 object (Some E)) other = 1"
    using edge by (simp add: count_list_distinct distinct_direct set_direct_Some)
  ultimately show ?thesis by (simp add: directPropagationTargets_Some [OF np])
qed

theorem C8_second_call_changes_nothing_witness:
  "propagateEventTo 1 initial_heap 1 ''e'' (EventObject 2) =
     Some (Inr (record_edge initial_heap 1 ''e'' 2)) \<and>
   propagateEventTo 1 (record_edge initial_heap 1 ''e'' 2) 1 ''e'' (EventObject 2) =
     Some (Inr (record_edge initial_heap 1 ''e'' 2)) \<and>
   (\<exists>ts. directPropagationTargets (record_edge initial_heap 1 ''e'' 2) 1 (Some ''e'') = Inr ts \<and>
         count_list ts 2 = 1)"
proof -
  have n: "(1::nat) \<noteq> BrainBrowser_events" "(1::nat) \<noteq> 2"
    by (simp_all add: BrainBrowser_events_def)
  have np: "''e'' \<notin> set Object_prototype"
    by (simp add: Object_prototype_def)
  have a: "all_targets 1 initial_heap 2 (Some ''e'') = Some []"
    by code_simp
  have p: "propagateEventTo 1 initial_heap 1 ''e'' (EventObject 2) =
     Some (Inr (record_edge initial_heap 1 ''e'' 2))"
    using n(1) a by (rule propagateEventTo_record_edge) (simp_all add: np)
  show ?thesis
    using C8_second_call_changes_nothing [OF n(2) p] p by simp
qed

text \<open>
  The claim as worded fails: object 1 propagates \<open>e\<close> to object 3 (registered twice) and
  to object 2, and object 2 propagates \<open>e\<close> to object 3. One trigger of \<open>e\<close> on object 1
  fires \<open>e\<close> on object 3 twice.
\<close>

theorem C8_reached_twice_counterexample:
  "propagateEventTo 1 initial_heap 1 ''e'' (EventObject 3) =
     Some (Inr (record_edge initial_heap 1 ''e'' 3)) \<and>
   propagateEventTo 1 (record_edge initial_heap 1 ''e'' 3) 1 ''e'' (EventObject 3) =
     Some (Inr (record_edge initial_heap 1 ''e'' 3)) \<and>
   propagateEventTo 1 (record_edge initial_heap 1 ''e'' 3) 1 ''e'' (EventObject 2) =
     Some (Inr (record_edge (record_edge initial_heap 1 ''e'' 3) 1 ''e'' 2)) \<and>
   propagateEventTo 1 (record_edge (record_edge initial_heap 1 ''e'' 3) 1 ''e'' 2) 2 ''e''
     (EventObject 3) =
     Some (Inr (record_edge (record_edge (record_edge initial_heap 1 ''e'' 3) 1 ''e'' 2) 2 ''e'' 3)) \<and>
   filter (fired_on 3)
     (fst (triggerEvent 4
             (record_edge (record_edge (record_edge initial_heap 1 ''e'' 3) 1 ''e'' 2) 2 ''e'' 3)
             1 1 ''e'' [])) =
     [Fired 3 1 [VString ''e''], Fired 3 1 [VString ''e'']] \<and>
   snd (triggerEvent 4
          (record_edge (record_edge (record_edge initial_heap 1 ''e'' 3) 1 ''e'' 2) 2 ''e'' 3)
          1 1 ''e'' []) \<noteq> None"
proof -
  let ?h1 = "record_edge initial_heap 1 ''e'' 3"
  let ?h2 = "record_edge ?h1 1 ''e'' 2"
  let ?h3 = "record_edge ?h2 2 ''e'' 3"
  have n: "(1::nat) \<noteq> BrainBrowser_events" "(2::nat) \<noteq> BrainBrowser_events"
    by (simp_all add: BrainBrowser_events_def)
  have np: "''e'' \<notin> set Object_prototype"
    by (simp add: Object_prototype_def)
  have a1: "all_targets 1 initial_heap 3 (Some ''e'') = Some []"
    and a2: "all_targets 1 ?h1 3 (Some ''e'') = Some []"
    and a3: "all_targets 1 ?h1 2 (Some ''e'') = Some []"
    and a4: "all_targets 1 ?h2 3 (Some ''e'') = Some []"
    by code_simp+
  have p1: "propagateEventTo 1 initial_heap 1 ''e'' (EventObject 3) = Some (Inr ?h1)"
    using n(1) a1 by (rule propagateEventTo_record_edge) (simp_all add: np)
  have "3 \<in> set (own_targets ?h1 1 ''e'')"
    by (simp add: targets_record_edge push_unique_def)
  then have again: "record_edge ?h1 1 ''e'' 3 = ?h1"
    by (rule record_edge_again)
  have "propagateEventTo 1 ?h1 1 ''e'' (EventObject 3) = Some (Inr (record_edge ?h1 1 ''e'' 3))"
    using n(1) a2 by (rule propagateEventTo_record_edge) (simp_all add: np)
  then have p2: "propagateEventTo 1 ?h1 1 ''e'' (EventObject 3) = Some (Inr ?h1)"
    by (simp only: again)
  have p3: "propagateEventTo 1 ?h1 1 ''e'' (EventObject 2) = Some (Inr ?h2)"
    using n(1) a3 by (rule propagateEventTo_record_edge) (simp_all add: np)
  have p4: "propagateEventTo 1 ?h2 2 ''e'' (EventObject 3) = Some (Inr ?h3)"
    using n(2) a4 by (rule propagateEventTo_record_edge) (simp_all add: np)
  have t: "filter (fired_on 3) (fst (triggerEvent 4 ?h3 1 1 ''e'' [])) =
     [Fired 3 1 [VString ''e''], Fired 3 1 [VString ''e'']]"
    by code_simp
  have "\<not> Option.is_none (snd (triggerEvent 4 ?h3 1 1 ''e'' []))"
    by code_simp
  then have s: "snd (triggerEvent 4 ?h3 1 1 ''e'' []) \<noteq> None"
    by (simp add: Option.is_none_def)
  from p1 p2 p3 p4 t s show ?thesis by simp
qed


subsection \<open>The cleanup event and \<open>stopPropagatingTo\<close> (C9)\<close>

text \<open>
  C9, as amended. Let \<open>A\<close> and \<open>B\<close> be distinct objects, \<open>B\<close> not \<open>BrainBrowser.events\<close>, in
  a reachable heap in which every edge to \<open>B\<close> has its cleanup closure among the listeners
  of \<open>B\<close> (\<open>cleanup_registered\<close>: \<open>propagateEventTo\<close> registers the closure with the
  first edge from a source to \<open>B\<close>, and only \<open>addEventModel\<close>, applied to \<open>B\<close> again,
  removes it). Let \<open>A.propagateEventTo(E, B)\<close> succeed, so that \<open>B\<close> is a direct target of
  \<open>A\<close>. When \<open>eventmodelcleanup\<close> is then triggered on \<open>B\<close> itself (\<open>this\<close> is \<open>B\<close>):
  \<^item> once the listeners of \<open>B\<close> have run, no object has an edge to \<open>B\<close> any more, under
    any event name;
  \<^item> the dispatch does not throw; with any fuel it either has not returned or returns a
    heap that differs from the one the listeners of \<open>B\<close> have left at most by further
    calls of \<open>stopPropagatingTo(B)\<close>, and in which \<open>A.stopPropagatingTo(B)\<close> changes
    nothing;
  \<^item> it does return when \<open>B\<close> has no target for \<open>eventmodelcleanup\<close>;
  \<^item> in every such heap, returned or reached when the dispatch is cut short, no object
    has an edge to \<open>B\<close>, and whatever event is triggered on \<open>A\<close> afterwards, with whatever
    \<open>this\<close>, arguments and fuel, the log has no entry of a dispatch on \<open>B\<close>.

  \<open>stopPropagatingTo\<close> is idempotent: a second call for the same target returns the heap
  unchanged, in any heap, and so does, in a reachable heap, a call for a target to which
  the object has no edge. For \<open>BrainBrowser.events\<close> as \<open>B\<close> the edges are removed as
  well, but every later trigger on \<open>A\<close> still reaches it through the fallback: this is the
  counterexample.
\<close>

theorem C9_cleanup_event_unlinks_target:
  assumes "reachable h" and "cleanup_registered h B"
    and "A \<noteq> B" and "B \<noteq> BrainBrowser_events"
    and "propagateEventTo fuel h A E (EventObject B) = Some (Inr h1)"
  shows "(\<exists>ts. directPropagationTargets h1 A (Some E) = Inr ts \<and> B \<in> set ts) \<and>
         no_edge_to (after_listeners h1 B B ''eventmodelcleanup'' args) B \<and>
         (\<forall>n. snd (triggerEvent n h1 B B ''eventmodelcleanup'' args) = None \<or>
              (\<exists>h2. snd (triggerEvent n h1 B B ''eventmodelcleanup'' args) = Some (Inr h2) \<and>
                    unlinked B (after_listeners h1 B B ''eventmodelcleanup'' args) h2 \<and>
                    stopPropagatingTo h2 A B = h2)) \<and>
         (directPropagationTargets h1 B (Some ''eventmodelcleanup'') = Inr [] \<longrightarrow>
            (\<exists>log h2. triggerEvent (Suc (Suc n')) h1 B B ''eventmodelcleanup'' args =
                        (log, Some (Inr h2)))) \<and>
         (\<forall>h2. unlinked B (after_listeners h1 B B ''eventmodelcleanup'' args) h2 \<longrightarrow>
              no_edge_to h2 B \<and>
              (\<forall>m this E' X. filter (fired_on B) (fst (triggerEvent m h2 A this E' X)) = [])) \<and>
         stopPropagatingTo (stopPropagatingTo h' x t) x t = stopPropagatingTo h' x t \<and>
         ((\<forall>e. t \<notin> set (own_targets h x e)) \<longrightarrow> stopPropagatingTo h x t = h)"
proof -
  let ?c = "''eventmodelcleanup''"
  let ?hL = "after_listeners h1 B B ?c args"
  have np: "E \<notin> set Object_prototype"
    using assms(5) by (rule propagateEventTo_not_prototype)
  from assms(5) have h1: "h1 = record_edge h A E B"
    by (rule propagateEventTo_Inr) auto
  have "B \<in> set (direct_targets h1 A (Some E))"
    by (simp add: h1 set_direct_Some targets_record_edge push_unique_def)
  then have edge: "\<exists>ts. directPropagationTargets h1 A (Some E) = Inr ts \<and> B \<in> set ts"
    by (simp add: directPropagationTargets_Some [OF np])
  have r1: "reachable h1"
    using assms(1,5) by (rule reachable.propagate)
  have c1: "cleanup_registered h1 B"
    unfolding h1 using assms(2) by (rule cleanup_registered_record_edge)
  then have none: "no_edge_to ?hL B"
    by (rule cleanup_listeners_unlink)
  have later: "\<And>h2. unlinked B ?hL h2 \<Longrightarrow>
      no_edge_to h2 B \<and>
      (\<forall>m this E' X. filter (fired_on B) (fst (triggerEvent m h2 A this E' X)) = [])"
  proof -
    fix h2
    assume "unlinked B ?hL h2"
    then have n2: "no_edge_to h2 B" using none by (rule unlinked_no_edge_to)
    then show "no_edge_to h2 B \<and>
      (\<forall>m this E' X. filter (fired_on B) (fst (triggerEvent m h2 A this E' X)) = [])"
      using triggerEvent_never_fired [OF assms(4) n2 assms(3)] by simp
  qed
  have result: "\<And>n. snd (triggerEvent n h1 B B ?c args) = None \<or>
      (\<exists>h2. snd (triggerEvent n h1 B B ?c args) = Some (Inr h2) \<and> unlinked B ?hL h2 \<and>
            stopPropagatingTo h2 A B = h2)"
  proof -
    fix n
    show "snd (triggerEvent n h1 B B ?c args) = None \<or>
      (\<exists>h2. snd (triggerEvent n h1 B B ?c args) = Some (Inr h2) \<and> unlinked B ?hL h2 \<and>
            stopPropagatingTo h2 A B = h2)"
    proof (cases "snd (dispatch n h1 B B ?c args)")
      case None
      then show ?thesis
        by (simp add: triggerEvent_ordinary [OF ordinary_eventmodelcleanup])
    next
      case (Some h2)
      then obtain k where n: "n = Suc k" by (cases n) simp_all
      have u: "unlinked B ?hL h2"
        using Some unfolding n by (rule dispatch_Suc_unlinked)
      have t: "triggerEvent n h1 B B ?c args = (fst (triggerEvent n h1 B B ?c args), Some (Inr h2))"
        using Some by (simp add: triggerEvent_ordinary [OF ordinary_eventmodelcleanup])
      have r2: "reachable h2"
        using r1 t by (rule reachable.trigger)
      have "no_edge_to h2 B" using later [OF u] by simp
      then have "stopPropagatingTo h2 A B = h2"
        using r2 by (simp add: stopPropagatingTo_no_edge no_edge_to_def)
      with u t show ?thesis by (metis snd_conv)
    qed
  qed
  have returns: "directPropagationTargets h1 B (Some ?c) = Inr [] \<longrightarrow>
      (\<exists>log h2. triggerEvent (Suc (Suc n')) h1 B B ?c args = (log, Some (Inr h2)))"
    using reachable_root_direct [OF r1, of "Some ?c"]
    by (simp add: triggerEvent_ordinary [OF ordinary_eventmodelcleanup] dispatch_leaf
          directPropagationTargets_Some [OF ordinary_not_prototype [OF ordinary_eventmodelcleanup]])
  have noop': "(\<forall>e. t \<notin> set (own_targets h x e)) \<longrightarrow> stopPropagatingTo h x t = h"
    using assms(1) by (simp add: stopPropagatingTo_no_edge)
  from edge none result returns later noop' show ?thesis
    by (simp add: stopPropagatingTo_idem)
qed

text \<open>
  An instance: object 2 has a handler for \<open>e\<close>, object 1 propagates \<open>e\<close> to object 2.
  A trigger of \<open>e\<close> on object 1 reaches object 2. The cleanup event on object 2 returns,
  and then object 1 has no target left, \<open>stopPropagatingTo\<close> changes nothing, and a
  trigger of \<open>e\<close> on object 1 only falls back on \<open>BrainBrowser.events\<close>.
\<close>

theorem C9_cleanup_event_unlinks_target_witness:
  "addEventListener initial_heap 2 ''e'' (Handler 5) =
     Inr (push_listener initial_heap 2 ''e'' (Handler 5)) \<and>
   propagateEventTo 1 (push_listener initial_heap 2 ''e'' (Handler 5)) 1 ''e'' (EventObject 2) =
     Some (Inr (record_edge (push_listener initial_heap 2 ''e'' (Handler 5)) 1 ''e'' 2)) \<and>
   fst (triggerEvent 3 (record_edge (push_listener initial_heap 2 ''e'' (Handler 5)) 1 ''e'' 2)
          1 1 ''e'' [VNumber 42]) =
     [Fired 1 1 [VString ''e'', VNumber 42], Fired 2 1 [VString ''e'', VNumber 42],
      Called (Handler 5) 1 [VNumber 42], Fired BrainBrowser_events 1 [VString ''e'', VNumber 42]] \<and>
   (\<exists>log h2.
      triggerEvent (Suc (Suc 0)) (record_edge (push_listener initial_heap 2 ''e'' (Handler 5)) 1 ''e'' 2)
        2 2 ''eventmodelcleanup'' [] = (log, Some (Inr h2)) \<and>
      no_edge_to h2 2 \<and>
      directPropagationTargets h2 1 None = Inr [] \<and>
      stopPropagatingTo h2 1 2 = h2 \<and>
      filter (fired_on 2) (fst (triggerEvent (Suc (Suc 0)) h2 1 1 ''e'' [VNumber 42])) = [] \<and>
      fst (triggerEvent (Suc (Suc 0)) h2 1 1 ''e'' [VNumber 42]) =
        [Fired 1 1 [VString ''e'', VNumber 42],
         Fired BrainBrowser_events 1 [VString ''e'', VNumber 42]])"
proof -
  let ?c = "''eventmodelcleanup''"
  let ?h0 = "push_listener initial_heap 2 ''e'' (Handler 5)"
  let ?h1 = "record_edge ?h0 1 ''e'' 2"
  let ?hL = "after_listeners ?h1 2 2 ?c []"
  let ?h2 = "after_listeners ?hL BrainBrowser_events 2 ?c []"
  let ?log = "Fired 2 2 (VString ?c # []) # listener_log ?h1 2 2 ?c [] @
              (if (2::nat) = BrainBrowser_events then []
               else Fired BrainBrowser_events 2 (VString ?c # []) #
                    listener_log ?h1 BrainBrowser_events 2 ?c [])"
  have o: "ordinary ''e''"
    by (simp add: ordinary_def Array_prototype_def Object_prototype_def)
  have l: "addEventListener initial_heap 2 ''e'' (Handler 5) = Inr ?h0"
    using o by (rule addEventListener_ordinary)
  have r: "reachable ?h0"
    using reachable.initial l by (rule reachable.listen)
  have "\<And>x e. own_targets ?h0 x e = []"
    unfolding targets_addEventListener
    by (simp add: own_targets_def initial_heap_def empty_model_def)
  then have creg: "cleanup_registered ?h0 2"
    by (simp add: cleanup_registered_def)
  have n: "(1::nat) \<noteq> 2" "(2::nat) \<noteq> BrainBrowser_events" "(1::nat) \<noteq> BrainBrowser_events"
    by (simp_all add: BrainBrowser_events_def)
  have a: "all_targets 1 ?h0 2 (Some ''e'') = Some []"
    by code_simp
  have p: "propagateEventTo 1 ?h0 1 ''e'' (EventObject 2) = Some (Inr ?h1)"
    using n(3) a by (rule propagateEventTo_record_edge) (simp_all add: ordinary_not_prototype [OF o])
  have before: "fst (triggerEvent 3 ?h1 1 1 ''e'' [VNumber 42]) =
       [Fired 1 1 [VString ''e'', VNumber 42], Fired 2 1 [VString ''e'', VNumber 42],
        Called (Handler 5) 1 [VNumber 42], Fired BrainBrowser_events 1 [VString ''e'', VNumber 42]]"
    by code_simp
  have d: "direct_targets ?h1 2 (Some ?c) = []"
    "direct_targets ?h1 BrainBrowser_events (Some ?c) = []"
    by code_simp+
  have c: "triggerEvent (Suc (Suc 0)) ?h1 2 2 ?c [] = (?log, Some (Inr ?h2))"
    unfolding triggerEvent_ordinary [OF ordinary_eventmodelcleanup] dispatch_leaf [OF d]
    using n(2) by simp
  have gone: "directPropagationTargets ?h2 1 None = Inr []"
    by code_simp
  have after: "fst (triggerEvent (Suc (Suc 0)) ?h2 1 1 ''e'' [VNumber 42]) =
       [Fired 1 1 [VString ''e'', VNumber 42], Fired BrainBrowser_events 1 [VString ''e'', VNumber 42]]"
    by code_simp
  note inst = C9_cleanup_event_unlinks_target [OF r creg n(1) n(2) p, of "[]"]
  from inst have "snd (triggerEvent (Suc (Suc 0)) ?h1 2 2 ?c []) = None \<or>
      (\<exists>h2. snd (triggerEvent (Suc (Suc 0)) ?h1 2 2 ?c []) = Some (Inr h2) \<and>
            unlinked 2 ?hL h2 \<and> stopPropagatingTo h2 1 2 = h2)"
    by blast
  with c have u: "unlinked 2 ?hL ?h2" and s: "stopPropagatingTo ?h2 1 2 = ?h2"
    by simp_all
  from inst u have "no_edge_to ?h2 2 \<and>
      filter (fired_on 2) (fst (triggerEvent (Suc (Suc 0)) ?h2 1 1 ''e'' [VNumber 42])) = []"
    by blast
  with c gone s after have "\<exists>log h2.
      triggerEvent (Suc (Suc 0)) ?h1 2 2 ?c [] = (log, Some (Inr h2)) \<and>
      no_edge_to h2 2 \<and>
      directPropagationTargets h2 1 None = Inr [] \<and>
      stopPropagatingTo h2 1 2 = h2 \<and>
      filter (fired_on 2) (fst (triggerEvent (Suc (Suc 0)) h2 1 1 ''e'' [VNumber 42])) = [] \<and>
      fst (triggerEvent (Suc (Suc 0)) h2 1 1 ''e'' [VNumber 42]) =
        [Fired 1 1 [VString ''e'', VNumber 42],
         Fired BrainBrowser_events 1 [VString ''e'', VNumber 42]]"
    by blast
  with l p before show ?thesis by blast
qed

text \<open>
  The claim as worded fails for \<open>BrainBrowser.events\<close> as the target: object 1 propagates
  \<open>e\<close> to it, the cleanup event is triggered on it and removes the edge, and the next
  trigger of \<open>e\<close> on object 1 still fires \<open>e\<close> on it, by the fallback.
\<close>

theorem C9_root_still_reached_counterexample:
  "propagateEventTo 1 initial_heap 1 ''e'' (EventObject BrainBrowser_events) =
     Some (Inr (record_edge initial_heap 1 ''e'' BrainBrowser_events)) \<and>
   snd (triggerEvent 1 (record_edge initial_heap 1 ''e'' BrainBrowser_events)
          BrainBrowser_events BrainBrowser_events ''eventmodelcleanup'' []) =
     Some (Inr (after_listeners (record_edge initial_heap 1 ''e'' BrainBrowser_events)
                  BrainBrowser_events BrainBrowser_events ''eventmodelcleanup'' [])) \<and>
   directPropagationTargets
     (after_listeners (record_edge initial_heap 1 ''e'' BrainBrowser_events)
        BrainBrowser_events BrainBrowser_events ''eventmodelcleanup'' []) 1 None = Inr [] \<and>
   filter (fired_on BrainBrowser_events)
     (fst (triggerEvent 2
             (after_listeners (record_edge initial_heap 1 ''e'' BrainBrowser_events)
                BrainBrowser_events BrainBrowser_events ''eventmodelcleanup'' [])
             1 1 ''e'' [])) =
     [Fired BrainBrowser_events 1 [VString ''e'']] \<and>
   (case snd (triggerEvent 2
          (after_listeners (record_edge initial_heap 1 ''e'' BrainBrowser_events)
             BrainBrowser_events BrainBrowser_events ''eventmodelcleanup'' [])
          1 1 ''e'' []) of Some (Inr h') \<Rightarrow> True | _ \<Rightarrow> False)"
proof -
  let ?h1 = "record_edge initial_heap 1 ''e'' BrainBrowser_events"
  let ?h2 = "after_listeners ?h1 BrainBrowser_events BrainBrowser_events ''eventmodelcleanup'' []"
  have n: "(1::nat) \<noteq> BrainBrowser_events"
    by (simp add: BrainBrowser_events_def)
  have np: "''e'' \<notin> set Object_prototype"
    by (simp add: Object_prototype_def)
  have a: "all_targets 1 initial_heap BrainBrowser_events (Some ''e'') = Some []"
    by code_simp
  have p: "propagateEventTo 1 initial_heap 1 ''e'' (EventObject BrainBrowser_events) = Some (Inr ?h1)"
    using n a by (rule propagateEventTo_record_edge) (simp_all add: np)
  have d: "direct_targets ?h1 BrainBrowser_events (Some ''eventmodelcleanup'') = []"
    by code_simp
  have c: "snd (triggerEvent 1 ?h1 BrainBrowser_events BrainBrowser_events ''eventmodelcleanup'' []) =
           Some (Inr ?h2)"
    using d by (simp add: triggerEvent_ordinary [OF ordinary_eventmodelcleanup] dispatch_Suc)
  have gone: "directPropagationTargets ?h2 1 None = Inr []"
    by code_simp
  have t: "filter (fired_on BrainBrowser_events) (fst (triggerEvent 2 ?h2 1 1 ''e'' [])) =
           [Fired BrainBrowser_events 1 [VString ''e'']]"
    by code_simp
  have s: "case snd (triggerEvent 2 ?h2 1 1 ''e'' []) of Some (Inr h') \<Rightarrow> True | _ \<Rightarrow> False"
    by code_simp
  from p c gone t s show ?thesis by simp
qed

end
